theory Spec2Isabelle
  imports Main "HOL-Library.AList"
begin

text \<open>
  The component \<open>VariablesValueSelector.vue\<close> resolves the variables of a dashboard:
  it keeps one object per variable, loads the variables in the order of their
  dependency graph, cancels a load that a newer one supersedes, and reconciles the
  value of a variable with the options a load brings. The theory embeds the script of
  the component: its pure functions as functions, its asynchronous functions as one
  function for each stretch of code that runs without interruption (a call up to its
  first \<open>await\<close>, the resumption after an \<open>await\<close>, a promise handler), over a state that
  holds the component's variables, the objects they share and the promises.
\<close>

section \<open>Values of the dashboard variables\<close>

text \<open>
  The component is written in TypeScript over \<open>any\<close>. A variable's value is a scalar
  (\<open>undefined\<close>, \<open>null\<close> or a string) or an array of scalars. Strings are compared by
  \<open>===\<close> and \<open>Array.prototype.includes\<close>, which on these scalars is plain equality.
  The filters held by a \<open>dynamic_filters\<close> variable are objects that the script only
  stores; they are not modelled further.
\<close>

datatype scalar = SUndefined | SNull | SStr string

datatype jsval = Scalar scalar | Arr "scalar list"

text \<open>JavaScript truthiness: \<open>undefined\<close>, \<open>null\<close> and the empty string are falsy, an
  array (also the empty one) is truthy.\<close>

fun truthy_scalar :: "scalar \<Rightarrow> bool" where
  "truthy_scalar SUndefined = False"
| "truthy_scalar SNull = False"
| "truthy_scalar (SStr s) = (s \<noteq> [])"

fun truthy :: "jsval \<Rightarrow> bool" where
  "truthy (Scalar s) = truthy_scalar s"
| "truthy (Arr xs) = True"

text \<open>The operand of \<open>a ?? b\<close> is replaced when it is \<open>null\<close> or \<open>undefined\<close> only.\<close>

fun nullish :: "scalar \<Rightarrow> bool" where
  "nullish SUndefined = True"
| "nullish SNull = True"
| "nullish (SStr s) = False"

text \<open>\<open>xs[0]\<close> of a JavaScript array: \<open>undefined\<close> when the array is empty.\<close>

fun first_elem :: "scalar list \<Rightarrow> scalar" where
  "first_elem [] = SUndefined"
| "first_elem (x # xs) = x"

record option_item =
  olabel :: string
  ovalue :: scalar
  oselected :: bool

datatype vtype = QueryValues | Constant | Textbox | Custom | DynamicFilters | OtherType

text \<open>\<open>selectAllValueForMultiSelect\<close>: the strings \<open>"custom"\<close> and \<open>"all"\<close>, and every
  other value (also a missing one), which the \<open>switch\<close> sends to its default branch.\<close>

datatype select_all = SelectCustom | SelectAll | SelectDefault

datatype error = TypeError | RangeError

record variable =
  name :: string
  vtype :: vtype
  multiSelect :: bool
  val :: jsval
  options :: "option_item list"
  isLoading :: bool
  isVariableLoadingPending :: bool
  selectAllValueForMultiSelect :: select_all
  customMultiSelectValue :: "scalar list option"
  query_field :: string

section \<open>Reconciliation of a selection with new options\<close>

text \<open>\<open>options.find(p)?.value\<close>: the value of the first option satisfying \<open>p\<close>,
  \<open>undefined\<close> when there is none.\<close>

definition find_value :: "(option_item \<Rightarrow> bool) \<Rightarrow> option_item list \<Rightarrow> scalar" where
  "find_value p os = (case List.find p os of None \<Rightarrow> SUndefined | Some opt \<Rightarrow> ovalue opt)"

text \<open>
  \<open>handleQueryValuesLogic\<close>. The function assigns \<open>currentVariable.value\<close>; the model
  returns the updated variable. Reading \<open>options[0].value\<close> of an empty option list and
  calling \<open>includes\<close> on a missing \<open>customMultiSelectValue\<close> throw a \<open>TypeError\<close>.
  The callback of \<open>optionsValues.filter\<close> is not called on an empty array, so a missing
  \<open>customMultiSelectValue\<close> goes unnoticed there.
\<close>

definition handleQueryValuesLogic :: "variable \<Rightarrow> scalar list \<Rightarrow> error + variable" where
  "handleQueryValuesLogic currentVariable oldVariableSelectedValues =
    (let optionsValues = map ovalue (options currentVariable) in
     if multiSelect currentVariable then
       (let selectedValues =
              map ovalue (filter (\<lambda>opt. ovalue opt \<in> set oldVariableSelectedValues)
                            (options currentVariable)) in
        if length selectedValues > 0 then Inr (currentVariable\<lparr>val := Arr selectedValues\<rparr>)
        else
          (case selectAllValueForMultiSelect currentVariable of
             SelectCustom \<Rightarrow>
               (if optionsValues = [] then Inr (currentVariable\<lparr>val := Arr []\<rparr>)
                else
                  (case customMultiSelectValue currentVariable of
                     None \<Rightarrow> Inl TypeError
                   | Some custom \<Rightarrow>
                       Inr (currentVariable\<lparr>val :=
                              Arr (filter (\<lambda>v. v \<in> set custom) optionsValues)\<rparr>)))
           | SelectAll \<Rightarrow> Inr (currentVariable\<lparr>val := Arr optionsValues\<rparr>)
           | SelectDefault \<Rightarrow>
               (case options currentVariable of
                  [] \<Rightarrow> Inl TypeError
                | opt # _ \<Rightarrow> Inr (currentVariable\<lparr>val := Arr [ovalue opt]\<rparr>))))
     else
       (let oldValue =
              find_value (\<lambda>opt. ovalue opt = first_elem oldVariableSelectedValues)
                (options currentVariable) in
        if truthy_scalar oldValue then Inr (currentVariable\<lparr>val := Scalar oldValue\<rparr>)
        else
          (case options currentVariable of
             [] \<Rightarrow> Inr (currentVariable\<lparr>val := Scalar SNull\<rparr>)
           | opt0 # _ \<Rightarrow>
               (if selectAllValueForMultiSelect currentVariable = SelectCustom then
                  (case customMultiSelectValue currentVariable of
                     None \<Rightarrow> Inl TypeError
                   | Some custom \<Rightarrow>
                       (let customValue =
                              find_value (\<lambda>opt. ovalue opt = first_elem custom)
                                (options currentVariable) in
                        Inr (currentVariable\<lparr>val :=
                               Scalar (if nullish customValue then ovalue opt0
                                       else customValue)\<rparr>)))
                else Inr (currentVariable\<lparr>val := Scalar (ovalue opt0)\<rparr>)))))"

text \<open>
  \<open>handleCustomVariablesLogic\<close>. Every index into \<open>options\<close> is guarded here
  (\<open>options?.[0]?.value\<close>, or a check of the length), so the function cannot throw.
\<close>

definition handleCustomVariablesLogic :: "variable \<Rightarrow> scalar list \<Rightarrow> variable" where
  "handleCustomVariablesLogic currentVariable oldVariableSelectedValues =
    (let selectedOptionsValues = map ovalue (filter oselected (options currentVariable)) in
     if multiSelect currentVariable then
       (let selectedValues =
              map ovalue (filter (\<lambda>opt. ovalue opt \<in> set oldVariableSelectedValues)
                            (options currentVariable)) in
        if length selectedValues > 0 then currentVariable\<lparr>val := Arr selectedValues\<rparr>
        else
          currentVariable\<lparr>val :=
            (if length selectedOptionsValues > 0 then Arr selectedOptionsValues
             else Arr [case options currentVariable of [] \<Rightarrow> SUndefined
                       | opt # _ \<Rightarrow> ovalue opt])\<rparr>)
     else
       (let oldValue =
              find_value (\<lambda>opt. ovalue opt = first_elem oldVariableSelectedValues)
                (options currentVariable) in
        if truthy_scalar oldValue then currentVariable\<lparr>val := Scalar oldValue\<rparr>
        else
          (case options currentVariable of
             [] \<Rightarrow> currentVariable\<lparr>val := Scalar SNull\<rparr>
           | opt0 # _ \<Rightarrow>
               currentVariable\<lparr>val :=
                 Scalar (if length selectedOptionsValues > 0 then first_elem selectedOptionsValues
                         else ovalue opt0)\<rparr>)))"

text \<open>\<open>customMultiSelectValue\<close> as a list, empty when it is missing.\<close>

definition custom_values :: "variable \<Rightarrow> scalar list" where
  "custom_values v = (case customMultiSelectValue v of None \<Rightarrow> [] | Some c \<Rightarrow> c)"

text \<open>
  The reconciliation as the specification words it, for a multi-select variable of either
  kind: the options found in the old selection, in option order; when there is none, the
  select-all policy.
\<close>

definition multi_select_spec :: "variable \<Rightarrow> scalar list \<Rightarrow> scalar list" where
  "multi_select_spec v old =
    (let inter = filter (\<lambda>x. x \<in> set old) (map ovalue (options v)) in
     if inter \<noteq> [] then inter
     else
       (case selectAllValueForMultiSelect v of
          SelectAll \<Rightarrow> map ovalue (options v)
        | SelectCustom \<Rightarrow>
            filter (\<lambda>x. x \<in> set (custom_values v)) (map ovalue (options v))
        | SelectDefault \<Rightarrow> [ovalue (hd (options v))]))"

text \<open>
  The single-select reconciliation as the specification words it: the first old value
  that is still an option; else, under the custom policy, the first custom value that is
  an option; else the first option; \<open>null\<close> without options.
\<close>

definition single_select_spec :: "variable \<Rightarrow> scalar list \<Rightarrow> scalar" where
  "single_select_spec v old =
    (case List.find (\<lambda>x. x \<in> ovalue ` set (options v)) old of
       Some x \<Rightarrow> x
     | None \<Rightarrow>
        (case options v of
           [] \<Rightarrow> SNull
         | opt0 # _ \<Rightarrow>
            (if selectAllValueForMultiSelect v = SelectCustom then
               (case List.find (\<lambda>x. x \<in> ovalue ` set (options v)) (custom_values v) of
                  Some x \<Rightarrow> x
                | None \<Rightarrow> ovalue opt0)
             else ovalue opt0)))"

section \<open>Strings: \<open>includes\<close> and \<open>replace\<close>\<close>

text \<open>\<open>index_of pat s\<close> splits \<open>s\<close> around the first occurrence of \<open>pat\<close>.\<close>

fun index_of :: "string \<Rightarrow> string \<Rightarrow> (string \<times> string) option" where
  "index_of pat [] = (if pat = [] then Some ([], []) else None)"
| "index_of pat (c # cs) =
     (if take (length pat) (c # cs) = pat then Some ([], drop (length pat) (c # cs))
      else map_option (\<lambda>(pre, post). (c # pre, post)) (index_of pat cs))"

definition str_includes :: "string \<Rightarrow> string \<Rightarrow> bool" where
  "str_includes s pat = (index_of pat s \<noteq> None)"

text \<open>
  The replacement text of \<open>String.prototype.replace\<close> with a string pattern: \<open>$$\<close> is a
  dollar sign, \<open>$&\<close> the match, \<open>$`\<close> the text before the match and \<open>$'\<close> the text after
  it; every other character stands for itself.
\<close>

fun get_substitution :: "string \<Rightarrow> string \<Rightarrow> string \<Rightarrow> string \<Rightarrow> string" where
  "get_substitution matched pre post [] = []"
| "get_substitution matched pre post [c] = [c]"
| "get_substitution matched pre post (c # d # r) =
     (if c = CHR ''$'' \<and> d = CHR ''$'' then CHR ''$'' # get_substitution matched pre post r
      else if c = CHR ''$'' \<and> d = CHR ''&'' then matched @ get_substitution matched pre post r
      else if c = CHR ''$'' \<and> d = CHR 0x60 then pre @ get_substitution matched pre post r
      else if c = CHR ''$'' \<and> d = CHR 0x27 then post @ get_substitution matched pre post r
      else c # get_substitution matched pre post (d # r))"

text \<open>\<open>s.replace(pat, replacement)\<close> with a string pattern replaces the first occurrence
  only.\<close>

definition js_replace :: "string \<Rightarrow> string \<Rightarrow> string \<Rightarrow> string" where
  "js_replace s pat replacement =
    (case index_of pat s of
       None \<Rightarrow> s
     | Some (pre, post) \<Rightarrow> pre @ get_substitution pat pre post replacement @ post)"

text \<open>A scalar used where a string is expected (a replacement text).\<close>

fun to_string :: "scalar \<Rightarrow> string" where
  "to_string SUndefined = ''undefined''"
| "to_string SNull = ''null''"
| "to_string (SStr s) = s"

fun join :: "string \<Rightarrow> string list \<Rightarrow> string" where
  "join sep [] = []"
| "join sep [x] = x"
| "join sep (x # y # r) = x @ sep @ join sep (y # r)"

section \<open>State of the component\<close>

record graph_node =
  parentVariables :: "string list"
  childVariables :: "string list"

text \<open>\<open>props.selectedTimeDate\<close>: an instant is \<open>Some t\<close>; \<open>None\<close> is a malformed or
  missing one.\<close>

record time_range =
  start_time :: "int option"
  end_time :: "int option"

text \<open>Modelled from the spec: \<open>isInvalidDate\<close> of \<open>@/utils/date\<close> is not among the
  sources. The specification calls a time range valid when both its start and its end are
  well-formed instants; the function takes one instant.\<close>

definition isInvalidDate :: "int option \<Rightarrow> bool" where
  "isInvalidDate d = (d = None)"

datatype settle = Unsettled | Fulfilled bool | Rejected

text \<open>Where the asynchronous executor of a promise is suspended: at
  \<open>await addLabelsToSQlQuery(...)\<close>, at \<open>await streamService.fieldValues(...)\<close>, or nowhere
  (it has returned or thrown).\<close>

datatype stage = Done | AwaitLabels | AwaitFieldValues

text \<open>
  One call of \<open>loadSingleVariableDataByIndex\<close> builds one promise with \<open>new Promise\<close>.
  \<open>settled\<close> is the state of that promise, \<open>reacted\<close> tells whether its \<open>then\<close> or
  \<open>catch\<close> handler has run, \<open>currentVariable\<close> is the object the executor holds.
\<close>

record promise =
  settled :: settle
  stage :: stage
  variableIndex :: int
  currentVariable :: nat
  reacted :: bool

text \<open>One entry of \<open>res.data.hits\<close>: the field, and the \<open>zo_sql_key\<close> of each of its
  values as the string that \<open>toString()\<close> gives (\<open>None\<close> for a key that is \<open>null\<close> or
  missing).\<close>

record hit =
  hfield :: string
  hvalues :: "string option list"

datatype fetch_result = FetchFailed | FetchOk "hit list"

text \<open>
  The variables are objects shared between \<open>variablesData.values\<close> and the closures of
  the executors, so they live in a store: \<open>heap\<close> holds the objects, \<open>values_list\<close> (the
  source's \<open>variablesData.values\<close>) their addresses. The two global objects
  \<open>oldVariablesData\<close> and \<open>currentlyExecutingPromises\<close> are association lists in
  insertion order; a reject handle is the number of its promise, \<open>None\<close> is \<open>null\<close>.
  \<open>fieldValuesCalls\<close> records the calls of \<open>streamService.fieldValues\<close> (promise and
  query context, before its base-64 encoding), \<open>emitted\<close> the snapshots passed to
  \<open>emit("variablesData", ...)\<close>. The name of a variable is taken not to be one of the
  properties that every JavaScript object inherits (\<open>constructor\<close>, \<open>toString\<close>, ...),
  which a lookup in the three global objects would find.
\<close>

record state =
  heap :: "variable list"
  values_list :: "nat list"
  isVariablesLoading :: bool
  variablesDependencyGraph :: "(string \<times> graph_node) list"
  oldVariablesData :: "(string \<times> jsval) list"
  currentlyExecutingPromises :: "(string \<times> nat option) list"
  promises :: "promise list"
  selectedTimeDate :: time_range
  fieldValuesCalls :: "(nat \<times> string) list"
  emitted :: "(bool \<times> variable list) list"

datatype outcome = Returned state | Threw error state

text \<open>\<open>xs[i]\<close> for an integer index: \<open>undefined\<close> outside the array.\<close>

definition at_index :: "'a list \<Rightarrow> int \<Rightarrow> 'a option" where
  "at_index xs i = (if 0 \<le> i \<and> nat i < length xs then Some (xs ! nat i) else None)"

definition update_object :: "nat \<Rightarrow> (variable \<Rightarrow> variable) \<Rightarrow> state \<Rightarrow> state" where
  "update_object a f st = st\<lparr>heap := (heap st)[a := f (heap st ! a)]\<rparr>"

text \<open>\<open>variablesData.values.find((it) => it.name === n)\<close>, as an address.\<close>

definition find_variable :: "state \<Rightarrow> string \<Rightarrow> nat option" where
  "find_variable st n = List.find (\<lambda>a. name (heap st ! a) = n) (values_list st)"

text \<open>\<open>resolve(b)\<close> and \<open>reject(false)\<close> of promise \<open>p\<close>: a settled promise stays as it
  is.\<close>

definition settle_promise :: "nat \<Rightarrow> settle \<Rightarrow> state \<Rightarrow> state" where
  "settle_promise p r st =
    (if p < length (promises st) \<and> settled (promises st ! p) = Unsettled
     then st\<lparr>promises := (promises st)[p := (promises st ! p)\<lparr>settled := r\<rparr>]\<rparr>
     else st)"

definition resolve :: "nat \<Rightarrow> bool \<Rightarrow> state \<Rightarrow> state" where
  "resolve p b st = settle_promise p (Fulfilled b) st"

definition reject :: "nat \<Rightarrow> state \<Rightarrow> state" where
  "reject p st = settle_promise p Rejected st"

definition set_stage :: "nat \<Rightarrow> stage \<Rightarrow> state \<Rightarrow> state" where
  "set_stage p s st = st\<lparr>promises := (promises st)[p := (promises st ! p)\<lparr>stage := s\<rparr>]\<rparr>"

text \<open>\<open>new Promise(...)\<close> for a call with index \<open>idx\<close>: the new promise is number
  \<open>length (promises st)\<close>.\<close>

definition new_promise :: "int \<Rightarrow> state \<Rightarrow> state" where
  "new_promise idx st =
    st\<lparr>promises := promises st @
          [\<lparr>settled = Unsettled, stage = Done, variableIndex = idx,
            currentVariable = 0, reacted = False\<rparr>]\<rparr>"

text \<open>\<open>currentlyExecutingPromises[n] = reject\<close> in the executor of promise \<open>p\<close>, which
  holds the object at \<open>a\<close> as its \<open>currentVariable\<close>.\<close>

definition install_reject :: "string \<Rightarrow> nat \<Rightarrow> nat \<Rightarrow> state \<Rightarrow> state" where
  "install_reject n p a st =
    st\<lparr>currentlyExecutingPromises := AList.update n (Some p) (currentlyExecutingPromises st),
       promises := (promises st)[p := (promises st ! p)\<lparr>currentVariable := a\<rparr>]\<rparr>"

text \<open>\<open>currentlyExecutingPromises[n] = null\<close>\<close>

definition clear_handle :: "string \<Rightarrow> state \<Rightarrow> state" where
  "clear_handle n st =
    st\<lparr>currentlyExecutingPromises := AList.update n None (currentlyExecutingPromises st)\<rparr>"

text \<open>\<open>oldVariablesData[n] = v\<close>\<close>

definition set_old :: "string \<Rightarrow> jsval \<Rightarrow> state \<Rightarrow> state" where
  "set_old n v st = st\<lparr>oldVariablesData := AList.update n v (oldVariablesData st)\<rparr>"

definition mark_reacted :: "nat \<Rightarrow> state \<Rightarrow> state" where
  "mark_reacted p st = st\<lparr>promises := (promises st)[p := (promises st ! p)\<lparr>reacted := True\<rparr>]\<rparr>"

text \<open>The call \<open>streamService.fieldValues({..., query_context})\<close> of promise \<open>p\<close>.\<close>

definition call_fieldValues :: "nat \<Rightarrow> string \<Rightarrow> state \<Rightarrow> state" where
  "call_fieldValues p q st = st\<lparr>fieldValuesCalls := fieldValuesCalls st @ [(p, q)]\<rparr>"

text \<open>\<open>if (currentlyExecutingPromises[n]) currentlyExecutingPromises[n](false)\<close>\<close>

definition reject_stored :: "string \<Rightarrow> state \<Rightarrow> state" where
  "reject_stored n st =
    (case map_of (currentlyExecutingPromises st) n of
       Some (Some p) \<Rightarrow> reject p st
     | _ \<Rightarrow> st)"

definition rejectAllPromises :: "state \<Rightarrow> state" where
  "rejectAllPromises st = fold reject_stored (map fst (currentlyExecutingPromises st)) st"

definition old_value :: "state \<Rightarrow> string \<Rightarrow> jsval" where
  "old_value st n =
    (case map_of (oldVariablesData st) n of None \<Rightarrow> Scalar SUndefined | Some v \<Rightarrow> v)"

text \<open>The array \<open>oldVariableSelectedValues\<close> built from \<open>oldVariablesData[name]\<close>: empty
  for a falsy old value, the old value itself when it is an array, else its singleton.\<close>

definition old_selected_values :: "jsval \<Rightarrow> scalar list" where
  "old_selected_values old =
    (if truthy old then (case old of Arr xs \<Rightarrow> xs | Scalar s \<Rightarrow> [s]) else [])"

definition snapshot :: "state \<Rightarrow> bool \<times> variable list" where
  "snapshot st = (isVariablesLoading st, map (\<lambda>a. heap st ! a) (values_list st))"

text \<open>\<open>emitVariablesData\<close> passes a deep copy of \<open>variablesData\<close> to the host.\<close>

definition emitVariablesData :: "state \<Rightarrow> state" where
  "emitVariablesData st = st\<lparr>emitted := emitted st @ [snapshot st]\<rparr>"

text \<open>
  The deep watcher on \<open>variablesData\<close> calls \<open>emitVariablesData\<close> once the synchronous
  code that changed \<open>variablesData\<close> has finished: \<open>prev\<close> is the state at its start,
  \<open>st\<close> the state at its end.
\<close>

definition watch_variablesData :: "state \<Rightarrow> state \<Rightarrow> state" where
  "watch_variablesData prev st =
    (if values_list st = values_list prev \<and> snapshot st = snapshot prev
     then st else emitVariablesData st)"


section \<open>Loading one variable\<close>

text \<open>
  The check of the parents in \<open>loadSingleVariableDataByIndex\<close>:
  \<open>parentVariables.find(...)\<close> returns the first parent whose variable is loading or
  pending (a parent with no variable of its name counts as loaded), and the \<open>if\<close> tests
  the name it returns, so a parent with the empty name never blocks.
\<close>

definition isAnyDepndentVariableLoadingPending :: "state \<Rightarrow> string list \<Rightarrow> bool" where
  "isAnyDepndentVariableLoadingPending st parents =
    (case List.find
            (\<lambda>parentVariable.
               case find_variable st parentVariable of
                 None \<Rightarrow> False
               | Some a \<Rightarrow> isLoading (heap st ! a) \<or> isVariableLoadingPending (heap st ! a))
            parents of
       None \<Rightarrow> False
     | Some parentVariable \<Rightarrow> parentVariable \<noteq> [])"

text \<open>
  \<open>loadSingleVariableDataByIndex\<close>, from the call to the first \<open>await\<close> of the executor
  (or to its end). The executor is an \<open>async\<close> function: an exception outside its
  \<open>try\<close> (a variable without an entry in the dependency graph) ends it and leaves the
  promise unsettled. In the branch \<open>"custom"\<close> the test
  \<open>currentVariable.type === "custom"\<close> is true. For \<open>query_values\<close> the executor stops
  at \<open>await addLabelsToSQlQuery(...)\<close>, whose arguments it builds from the variable's
  stream and filters; the variable's \<open>query_data\<close> is taken to be there.
\<close>

definition loadSingleVariableDataByIndex :: "int \<Rightarrow> state \<Rightarrow> state" where
  "loadSingleVariableDataByIndex idx st =
    (let p = length (promises st);
         st0 = new_promise idx st;
         st1 = (if idx < 0 then resolve p False st0 else st0)
     in case at_index (values_list st1) idx of
          None \<Rightarrow> resolve p False st1
        | Some a \<Rightarrow>
           (let cv = heap st1 ! a;
                st2 = reject_stored (name cv) st1;
                st3 = install_reject (name cv) p a st2
            in if isVariableLoadingPending cv = False then resolve p False st3
               else if isInvalidDate (start_time (selectedTimeDate st3))
                       \<or> isInvalidDate (end_time (selectedTimeDate st3))
               then resolve p False st3
               else
                 (case map_of (variablesDependencyGraph st3) (name cv) of
                    None \<Rightarrow> st3
                  | Some node \<Rightarrow>
                     if isAnyDepndentVariableLoadingPending st3 (parentVariables node)
                     then resolve p False st3
                     else
                       (case vtype cv of
                          QueryValues \<Rightarrow>
                            set_stage p AwaitLabels
                              (update_object a (\<lambda>v. v\<lparr>isLoading := True\<rparr>) st3)
                        | Custom \<Rightarrow>
                            resolve p True
                              (update_object a
                                 (\<lambda>v. handleCustomVariablesLogic v
                                         (old_selected_values (old_value st3 (name cv))))
                                 st3)
                        | _ \<Rightarrow> resolve p True st3))))"

text \<open>The \<open>catch\<close> block of the executor.\<close>

definition executor_catch :: "nat \<Rightarrow> nat \<Rightarrow> state \<Rightarrow> state" where
  "executor_catch p a st =
    resolve p True (update_object a (\<lambda>v. v\<lparr>val := Scalar SNull, options := []\<rparr>) st)"

text \<open>
  One round of the loop over \<open>variablesData.values\<close> that replaces the placeholders in
  \<open>queryContext\<close>; \<open>a\<close> is the executor's variable, \<open>b\<close> the variable of this round.
  \<open>escapeSingleQuotes\<close> of \<open>@/utils/zincutils\<close> is not among the sources and is the
  parameter \<open>esc\<close>. The branch for a variable that is not loaded calls \<open>resolve(false)\<close>
  and goes on with the next round.
\<close>

definition replace_placeholder ::
  "(scalar \<Rightarrow> string) \<Rightarrow> nat \<Rightarrow> nat \<Rightarrow> nat \<Rightarrow> string \<times> state \<Rightarrow> string \<times> state" where
  "replace_placeholder esc p a b qs =
    (let queryContext = fst qs; st = snd qs; variable = heap st ! b in
     if isLoading variable = False \<and> isVariableLoadingPending variable = False then
       (case val variable of
          Arr xs \<Rightarrow>
            (js_replace queryContext ([CHR 0x27, CHR ''$''] @ name variable @ [CHR 0x27])
               (join '', '' (map (\<lambda>x. [CHR 0x27] @ esc x @ [CHR 0x27]) xs)), st)
        | Scalar x \<Rightarrow>
            (js_replace queryContext (CHR ''$'' # name variable) (to_string x), st))
     else if str_includes queryContext (CHR ''$'' # name variable) then
       (queryContext,
        resolve p False
          (update_object a (\<lambda>v. v\<lparr>isLoading := False, isVariableLoadingPending := True\<rparr>) st))
     else (queryContext, st))"

text \<open>
  The executor after \<open>await addLabelsToSQlQuery(...)\<close>: \<open>r\<close> is the query the call
  returned, \<open>None\<close> when it failed. It ends in the call of \<open>streamService.fieldValues\<close>.
\<close>

definition resume_addLabelsToSQlQuery ::
  "(scalar \<Rightarrow> string) \<Rightarrow> nat \<Rightarrow> string option \<Rightarrow> state \<Rightarrow> state" where
  "resume_addLabelsToSQlQuery esc p r st =
    (if p < length (promises st) \<and> stage (promises st ! p) = AwaitLabels then
       (let a = currentVariable (promises st ! p) in
        case r of
          None \<Rightarrow> executor_catch p a (set_stage p Done st)
        | Some q \<Rightarrow>
           (let qs = fold (replace_placeholder esc p a) (values_list st) (q, st);
                st' = snd qs
            in set_stage p AwaitFieldValues (call_fieldValues p (fst qs) st')))
     else st)"

text \<open>The options built from the values of a hit: a value without key is dropped, the
  empty key is shown as \<open>&lt;blank&gt;\<close>.\<close>

definition options_of_hit :: "hit \<Rightarrow> option_item list" where
  "options_of_hit h =
    concat
      (map (\<lambda>k. case k of
                  None \<Rightarrow> []
                | Some key \<Rightarrow>
                    [\<lparr>olabel = (if key = [] then ''&lt;blank&gt;'' else key),
                      ovalue = SStr key, oselected = False\<rparr>])
         (hvalues h))"

text \<open>
  The executor after \<open>await streamService.fieldValues(...)\<close>. The test
  \<open>old !== undefined || old !== null\<close> is true of every value, and in this branch the
  variable's type is not \<open>"custom"\<close>, so \<open>handleQueryValuesLogic\<close> runs. A response with
  hits but none for the variable's field throws inside the \<open>try\<close>, as does
  \<open>handleQueryValuesLogic\<close> when it throws.
\<close>

definition resume_fieldValues :: "nat \<Rightarrow> fetch_result \<Rightarrow> state \<Rightarrow> state" where
  "resume_fieldValues p r st =
    (if p < length (promises st) \<and> stage (promises st ! p) = AwaitFieldValues then
       (let a = currentVariable (promises st ! p);
            st0 = set_stage p Done st
        in case r of
             FetchFailed \<Rightarrow> executor_catch p a st0
           | FetchOk hits \<Rightarrow>
              (if hits \<noteq> [] then
                 (case List.find (\<lambda>h. hfield h = query_field (heap st0 ! a)) hits of
                    None \<Rightarrow> executor_catch p a st0
                  | Some h \<Rightarrow>
                     (let st1 = update_object a (\<lambda>v. v\<lparr>options := options_of_hit h\<rparr>) st0;
                          cv = heap st1 ! a;
                          oldVariableSelectedValues =
                            old_selected_values (old_value st1 (name cv))
                      in if vtype cv = Custom then
                           resolve p True
                             (update_object a
                                (\<lambda>v. handleCustomVariablesLogic v oldVariableSelectedValues) st1)
                         else
                           (case handleQueryValuesLogic cv oldVariableSelectedValues of
                              Inl e \<Rightarrow> executor_catch p a st1
                            | Inr cv' \<Rightarrow> resolve p True (update_object a (\<lambda>v. cv') st1))))
               else
                 resolve p True
                   (update_object a
                      (\<lambda>v. v\<lparr>val := (if multiSelect v then Arr [] else Scalar SNull),
                             options := []\<rparr>) st0)))
     else st)"

text \<open>The handler given to \<open>catch\<close>.\<close>

definition catch_handler :: "nat \<Rightarrow> state \<Rightarrow> state" where
  "catch_handler p st =
    (let idx = variableIndex (promises st ! p) in
     if idx < 0 then st
     else
       (case at_index (values_list st) idx of
          None \<Rightarrow> st
        | Some a \<Rightarrow>
           update_object a (\<lambda>v. v\<lparr>isLoading := False\<rparr>)
             (clear_handle (name (heap st ! a)) st)))"

text \<open>
  The handler given to \<open>then\<close>, for a promise resolved with \<open>true\<close>, up to the call of
  \<open>emitVariablesData\<close>: it marks the variable loaded and computes \<open>isVariablesLoading\<close>.
\<close>

definition mark_loaded :: "nat \<Rightarrow> state \<Rightarrow> state" where
  "mark_loaded a st =
    (let n = name (heap st ! a);
         st1 = clear_handle n st;
         st2 = set_old n (val (heap st1 ! a)) st1;
         st3 = update_object a
                 (\<lambda>v. v\<lparr>isLoading := False, isVariableLoadingPending := False\<rparr>) st2
     in st3\<lparr>isVariablesLoading :=
              list_ex (\<lambda>b. isLoading (heap st3 ! b) \<or> isVariableLoadingPending (heap st3 ! b))
                (values_list st3)\<rparr>)"

text \<open>The indices of the variables named among the children of \<open>n\<close>.\<close>

definition childVariableIndices :: "state \<Rightarrow> graph_node \<Rightarrow> nat list" where
  "childVariableIndices st node =
    filter (\<lambda>i. name (heap st ! (values_list st ! i)) \<in> set (childVariables node))
      [0 ..< length (values_list st)]"

text \<open>
  The whole handler given to \<open>then\<close>. A variable without an entry in the dependency
  graph makes the handler throw after it has marked the variable; the promise that
  \<open>then\<close> returns is rejected and the handler given to \<open>catch\<close> runs.
\<close>

definition then_handler :: "nat \<Rightarrow> state \<Rightarrow> state" where
  "then_handler p st =
    (let idx = variableIndex (promises st ! p) in
     if idx < 0 then st
     else
       (case at_index (values_list st) idx of
          None \<Rightarrow> st
        | Some a \<Rightarrow>
           (let st4 = mark_loaded a st in
            case map_of (variablesDependencyGraph st4) (name (heap st4 ! a)) of
              None \<Rightarrow> catch_handler p st4
            | Some node \<Rightarrow>
                fold (\<lambda>childIndex. loadSingleVariableDataByIndex (int childIndex))
                  (childVariableIndices st4 node) (emitVariablesData st4))))"

text \<open>
  The reaction to a settled promise runs once: the handler of \<open>then\<close> for a fulfilled
  promise (it does nothing for \<open>false\<close>), the handler of \<open>catch\<close> for a rejected one.
\<close>

definition run_reaction :: "nat \<Rightarrow> state \<Rightarrow> state" where
  "run_reaction p st =
    (if p < length (promises st) \<and> reacted (promises st ! p) = False then
       (case settled (promises st ! p) of
          Unsettled \<Rightarrow> st
        | Fulfilled res \<Rightarrow>
            (if res then then_handler p (mark_reacted p st) else mark_reacted p st)
        | Rejected \<Rightarrow> catch_handler p (mark_reacted p st))
     else st)"

section \<open>Resolution cycles\<close>

definition loadAllVariablesData :: "state \<Rightarrow> state" where
  "loadAllVariablesData st =
    (if isInvalidDate (start_time (selectedTimeDate st))
        \<or> isInvalidDate (end_time (selectedTimeDate st))
     then st
     else
       fold (\<lambda>index. loadSingleVariableDataByIndex (int index))
         [0 ..< length (values_list st)]
         (fold (\<lambda>a. update_object a (\<lambda>v. v\<lparr>isVariableLoadingPending := True\<rparr>))
            (values_list st) st))"

text \<open>
  \<open>setLoadingStateToAllChildNode\<close> is recursive and the source bounds its depth by the
  call stack only: \<open>depth\<close> is the number of frames left, and running out of them is the
  \<open>RangeError\<close> of JavaScript. A child without a variable of its name, or a variable
  without an entry in the graph, is a \<open>TypeError\<close>.
\<close>

fun setLoadingStateToAllChildNode :: "nat \<Rightarrow> string \<Rightarrow> state \<Rightarrow> outcome"
  and mark_children :: "nat \<Rightarrow> string list \<Rightarrow> state \<Rightarrow> outcome" where
  "setLoadingStateToAllChildNode 0 cur st = Threw RangeError st"
| "setLoadingStateToAllChildNode (Suc depth) cur st =
     (case map_of (variablesDependencyGraph st) cur of
        None \<Rightarrow> Threw TypeError st
      | Some node \<Rightarrow> mark_children depth (childVariables node) st)"
| "mark_children depth [] st = Returned st"
| "mark_children depth (variableName # rest) st =
     (case find_variable st variableName of
        None \<Rightarrow> Threw TypeError st
      | Some a \<Rightarrow>
         (case setLoadingStateToAllChildNode depth variableName
                 (update_object a (\<lambda>v. v\<lparr>isVariableLoadingPending := True\<rparr>) st) of
            Threw e st' \<Rightarrow> Threw e st'
          | Returned st' \<Rightarrow> mark_children depth rest st'))"

definition onVariablesValueUpdated :: "nat \<Rightarrow> int \<Rightarrow> state \<Rightarrow> outcome" where
  "onVariablesValueUpdated depth idx st =
    (if idx < 0 then Returned st
     else
       (case at_index (values_list st) idx of
          None \<Rightarrow> Returned st
        | Some a \<Rightarrow>
           (let cv = heap st ! a;
                st1 = set_old (name cv) (val cv) st
            in case setLoadingStateToAllChildNode depth (name cv) st1 of
                 Threw e st' \<Rightarrow> Threw e st'
               | Returned st2 \<Rightarrow>
                   Returned
                     (fold (\<lambda>index. loadSingleVariableDataByIndex (int index))
                        [0 ..< length (values_list st2)] st2))))"


section \<open>Building the variables\<close>

definition resetVariablesData :: "state \<Rightarrow> state" where
  "resetVariablesData st = st\<lparr>isVariablesLoading := False, values_list := []\<rparr>"

text \<open>
  The initial value of a configured variable. \<open>initialVariableValues\<close> maps a name to
  its value; for \<open>dynamic_filters\<close> the source decodes that value from its URL form
  first, which the model leaves to the caller. A missing value is \<open>null\<close> (the empty
  array for \<open>dynamic_filters\<close>), and a multi-select variable gets an array.
\<close>

definition initial_value :: "(string \<times> jsval) list \<Rightarrow> variable \<Rightarrow> jsval" where
  "initial_value initialVariableValues item =
    (let given = (case map_of initialVariableValues (name item) of
                    None \<Rightarrow> Scalar SUndefined | Some v \<Rightarrow> v);
         missing = (given = Scalar SUndefined \<or> given = Scalar SNull);
         initialValue =
           (if missing then (if vtype item = DynamicFilters then Arr [] else Scalar SNull)
            else given)
     in if multiSelect item
        then (case initialValue of Arr xs \<Rightarrow> Arr xs | Scalar x \<Rightarrow> Arr [x])
        else initialValue)"

text \<open>\<open>variablesData.values.push(variableData)\<close> stores a new object.\<close>

definition push_variable :: "variable \<Rightarrow> state \<Rightarrow> state" where
  "push_variable v st =
    st\<lparr>heap := heap st @ [v], values_list := values_list st @ [length (heap st)]\<rparr>"

definition add_configured :: "(string \<times> jsval) list \<Rightarrow> variable \<Rightarrow> state \<Rightarrow> state" where
  "add_configured initialVariableValues item st =
    (let initialValue = initial_value initialVariableValues item;
         variableData = item\<lparr>isLoading := False, isVariableLoadingPending := True\<rparr>;
         variableData' =
           (if vtype item = Constant then variableData
            else if vtype item = Textbox then
              variableData\<lparr>val :=
                (if initialValue = Scalar SNull \<or> initialValue = Scalar SUndefined
                 then val variableData else initialValue)\<rparr>
            else variableData\<lparr>val := initialValue\<rparr>);
         st1 = push_variable variableData' st
     in set_old (name item) initialValue st1)"

definition dynamic_filters_variable :: "jsval \<Rightarrow> variable" where
  "dynamic_filters_variable initialValue =
    \<lparr>name = ''Dynamic filters'', vtype = DynamicFilters, multiSelect = False,
     val = initialValue, options = [], isLoading = False, isVariableLoadingPending = True,
     selectAllValueForMultiSelect = SelectDefault, customMultiSelectValue = None,
     query_field = []\<rparr>"

text \<open>
  \<open>initializeVariablesData\<close>. The configuration is \<open>None\<close> when
  \<open>props.variablesConfig\<close> is missing. \<open>buildVariablesDependencyGraph\<close> of
  \<open>@/utils/dashboard/variables/variablesDependencyUtils\<close> is not among the sources and
  is a parameter.
\<close>

definition initializeVariablesData ::
  "variable list option \<Rightarrow> (string \<times> jsval) list \<Rightarrow> bool \<Rightarrow>
   (variable list \<Rightarrow> (string \<times> graph_node) list) \<Rightarrow> state \<Rightarrow> state" where
  "initializeVariablesData variablesConfig initialVariableValues showDynamicFilters
     buildVariablesDependencyGraph st =
    (let st0 = resetVariablesData st in
     case variablesConfig of
       None \<Rightarrow> st0
     | Some items \<Rightarrow>
        (let st1 = fold (add_configured initialVariableValues) items st0;
             st2 =
               (if showDynamicFilters then
                  (let initialValue =
                         (case map_of initialVariableValues ''Dynamic filters'' of
                            None \<Rightarrow> Arr []
                          | Some v \<Rightarrow>
                              (if v = Scalar SNull \<or> v = Scalar SUndefined then Arr [] else v));
                       st' = push_variable (dynamic_filters_variable initialValue) st1
                   in set_old ''Dynamic filters'' initialValue st')
                else st1)
         in st2\<lparr>variablesDependencyGraph :=
                  buildVariablesDependencyGraph (map (\<lambda>a. heap st2 ! a) (values_list st2))\<rparr>))"

text \<open>The hook \<open>onMounted\<close> and the watcher of \<open>props.variablesConfig\<close> have the same
  body; the watcher of \<open>variablesData\<close> runs after it.\<close>

definition onMounted ::
  "variable list option \<Rightarrow> (string \<times> jsval) list \<Rightarrow> bool \<Rightarrow>
   (variable list \<Rightarrow> (string \<times> graph_node) list) \<Rightarrow> state \<Rightarrow> state" where
  "onMounted variablesConfig initialVariableValues showDynamicFilters
     buildVariablesDependencyGraph st =
    watch_variablesData st
      (loadAllVariablesData
         (rejectAllPromises
            (initializeVariablesData variablesConfig initialVariableValues showDynamicFilters
               buildVariablesDependencyGraph st)))"

text \<open>The watcher of \<open>props.selectedTimeDate\<close>, called with the new time range.\<close>

definition watch_selectedTimeDate :: "time_range \<Rightarrow> state \<Rightarrow> state" where
  "watch_selectedTimeDate newRange st =
    (let st' = st\<lparr>selectedTimeDate := newRange\<rparr>
     in watch_variablesData st' (loadAllVariablesData (rejectAllPromises st')))"

text \<open>The state of a component that has not been mounted.\<close>

definition initial_state :: "time_range \<Rightarrow> state" where
  "initial_state timeRange =
    \<lparr>heap = [], values_list = [], isVariablesLoading = False, variablesDependencyGraph = [],
     oldVariablesData = [], currentlyExecutingPromises = [], promises = [],
     selectedTimeDate = timeRange, fieldValuesCalls = [], emitted = []\<rparr>"

section \<open>The dependency graph as a relation\<close>

definition child_rel :: "(string \<times> graph_node) list \<Rightarrow> (string \<times> string) set" where
  "child_rel g = {(x, y). \<exists>node. map_of g x = Some node \<and> y \<in> set (childVariables node)}"

definition descendants :: "(string \<times> graph_node) list \<Rightarrow> string \<Rightarrow> string set" where
  "descendants g x = {y. (x, y) \<in> (child_rel g)\<^sup>+}"

text \<open>Every child named in the graph is a variable with an entry of its own, and every
  address of \<open>variablesData.values\<close> is an object of the store.\<close>

definition graph_closed :: "state \<Rightarrow> bool" where
  "graph_closed st =
    (list_all (\<lambda>a. a < length (heap st)) (values_list st) \<and>
     list_all
       (\<lambda>entry. list_all
          (\<lambda>c. map_of (variablesDependencyGraph st) c \<noteq> None \<and> find_variable st c \<noteq> None)
          (childVariables (snd entry)))
       (variablesDependencyGraph st))"

definition outcome_state :: "outcome \<Rightarrow> state" where
  "outcome_state out = (case out of Returned st \<Rightarrow> st | Threw e st \<Rightarrow> st)"


section \<open>Marked states\<close>

text \<open>\<open>only_marked st st'\<close>: the two states differ in the store only, and there an object
  is as it was or has \<open>isVariableLoadingPending\<close> set.\<close>

definition only_marked :: "state \<Rightarrow> state \<Rightarrow> bool" where
  "only_marked st st' =
    (st' = st\<lparr>heap := heap st'\<rparr>
     \<and> list_all2 (\<lambda>v v'. v' = v \<or> v' = v\<lparr>isVariableLoadingPending := True\<rparr>)
           (heap st) (heap st'))"

text \<open>\<open>mark_pending S h\<close> is the store \<open>h\<close> with \<open>isVariableLoadingPending\<close> set on the
  objects at the addresses in \<open>S\<close>; \<open>descendant_objects st x\<close> are the addresses of the
  variables whose names are descendants of \<open>x\<close> in the dependency graph.\<close>

definition mark_pending :: "nat set \<Rightarrow> variable list \<Rightarrow> variable list" where
  "mark_pending S h =
    map (\<lambda>i. if i \<in> S then (h ! i)\<lparr>isVariableLoadingPending := True\<rparr> else h ! i)
      [0 ..< length h]"

definition marked :: "state \<Rightarrow> nat set \<Rightarrow> state" where
  "marked st S = st\<lparr>heap := mark_pending S (heap st)\<rparr>"

definition descendant_objects :: "state \<Rightarrow> string \<Rightarrow> nat set" where
  "descendant_objects st x =
    {a \<in> set (values_list st).
       name (heap st ! a) \<in> descendants (variablesDependencyGraph st) x}"

section \<open>Example configurations\<close>

definition mk_option :: "string \<Rightarrow> bool \<Rightarrow> option_item" where
  "mk_option s sel = \<lparr>olabel = s, ovalue = SStr s, oselected = sel\<rparr>"

definition mk_variable :: "string \<Rightarrow> vtype \<Rightarrow> bool \<Rightarrow> select_all \<Rightarrow> option_item list \<Rightarrow> variable" where
  "mk_variable n t multi policy opts =
    \<lparr>name = n, vtype = t, multiSelect = multi,
     val = (if multi then Arr [] else Scalar SNull), options = opts,
     isLoading = False, isVariableLoadingPending = True,
     selectAllValueForMultiSelect = policy, customMultiSelectValue = None,
     query_field = n\<rparr>"

text \<open>The multi-select variable \<open>env\<close> of the specification's scenario, as a
  \<open>query_values\<close> and as a \<open>custom\<close> variable.\<close>

definition env_options :: "option_item list" where
  "env_options = [mk_option ''prod'' False, mk_option ''staging'' False, mk_option ''dev'' False]"

definition env_query :: variable where
  "env_query = mk_variable ''env'' QueryValues True SelectAll env_options"

definition env_custom :: variable where
  "env_custom = mk_variable ''env'' Custom True SelectAll env_options"

text \<open>The single-select variable \<open>region\<close> of the specification's scenario.\<close>

definition region_query :: variable where
  "region_query =
    mk_variable ''region'' QueryValues False SelectDefault
      [mk_option ''us-east'' False, mk_option ''us-west'' False]"

text \<open>The two variables of the specification's scenario, \<open>region\<close> and \<open>host\<close> that
  depends on it, both pending, before any load.\<close>

definition region_host_state :: state where
  "region_host_state =
    \<lparr>heap = [mk_variable ''region'' QueryValues False SelectDefault [],
             mk_variable ''host'' QueryValues False SelectDefault []],
     values_list = [0, 1], isVariablesLoading = False,
     variablesDependencyGraph =
       [(''region'', \<lparr>parentVariables = [], childVariables = [''host'']\<rparr>),
        (''host'', \<lparr>parentVariables = [''region''], childVariables = []\<rparr>)],
     oldVariablesData = [(''region'', Scalar SNull), (''host'', Scalar SNull)],
     currentlyExecutingPromises = [], promises = [],
     selectedTimeDate = \<lparr>start_time = Some 100, end_time = Some 200\<rparr>,
     fieldValuesCalls = [], emitted = []\<rparr>"

text \<open>A variable whose load is in flight when the time range has become invalid.\<close>

definition stalled_state :: state where
  "stalled_state =
    \<lparr>heap = [(mk_variable ''region'' QueryValues False SelectDefault [])\<lparr>isLoading := True\<rparr>],
     values_list = [0], isVariablesLoading = False,
     variablesDependencyGraph = [(''region'', \<lparr>parentVariables = [], childVariables = []\<rparr>)],
     oldVariablesData = [(''region'', Scalar SNull)],
     currentlyExecutingPromises = [(''region'', Some 0)],
     promises = [\<lparr>settled = Unsettled, stage = AwaitFieldValues, variableIndex = 0,
                  currentVariable = 0, reacted = False\<rparr>],
     selectedTimeDate = \<lparr>start_time = Some 100, end_time = None\<rparr>,
     fieldValuesCalls = [(0, ''SELECT _timestamp FROM 'logs' '')], emitted = []\<rparr>"

text \<open>The scenario with a time range whose end precedes its start; both instants are
  well-formed.\<close>

definition reversed_range_state :: state where
  "reversed_range_state =
     region_host_state\<lparr>selectedTimeDate := \<lparr>start_time = Some 200, end_time = Some 100\<rparr>\<rparr>"

text \<open>Three variables, all loaded: \<open>host\<close> depends on \<open>region\<close>, \<open>env\<close> on nothing.\<close>

definition loaded_state :: state where
  "loaded_state =
    \<lparr>heap = [(mk_variable ''region'' QueryValues False SelectDefault [])
                \<lparr>isVariableLoadingPending := False\<rparr>,
             (mk_variable ''host'' QueryValues False SelectDefault [])
                \<lparr>isVariableLoadingPending := False\<rparr>,
             (mk_variable ''env'' Custom True SelectAll env_options)
                \<lparr>isVariableLoadingPending := False\<rparr>],
     values_list = [0, 1, 2], isVariablesLoading = False,
     variablesDependencyGraph =
       [(''region'', \<lparr>parentVariables = [], childVariables = [''host'']\<rparr>),
        (''host'', \<lparr>parentVariables = [''region''], childVariables = []\<rparr>),
        (''env'', \<lparr>parentVariables = [], childVariables = []\<rparr>)],
     oldVariablesData = [], currentlyExecutingPromises = [], promises = [],
     selectedTimeDate = \<lparr>start_time = Some 100, end_time = Some 200\<rparr>,
     fieldValuesCalls = [], emitted = []\<rparr>"

text \<open>
  The scenario of \<open>region\<close> and \<open>host\<close> in time: a cycle starts, the query for
  \<open>region\<close> comes back from \<open>addLabelsToSQlQuery\<close> and the fetch of its values is
  issued; then the fetch fails. No value is an array here, so \<open>escapeSingleQuotes\<close> is
  not called; \<open>to_string\<close> stands in for it.
\<close>

definition region_in_flight :: state where
  "region_in_flight =
     resume_addLabelsToSQlQuery to_string 0 (Some ''SELECT _timestamp FROM logs'')
       (loadAllVariablesData region_host_state)"

definition region_failed :: state where
  "region_failed = resume_fieldValues 0 FetchFailed region_in_flight"

text \<open>
  The time range changes while the fetch for \<open>region\<close> is in flight: the watcher
  rejects every stored promise and starts a new cycle, and the handler of \<open>catch\<close> runs
  for the rejected promise 0. The new load of \<open>region\<close> (promise 2) then completes with
  the values of the new range.
\<close>

definition later_range :: time_range where
  "later_range = \<lparr>start_time = Some 300, end_time = Some 400\<rparr>"

definition region_query_context :: string where
  "region_query_context = ''SELECT _timestamp FROM 'logs' ''"

definition region_superseded :: state where
  "region_superseded = run_reaction 0 (watch_selectedTimeDate later_range region_in_flight)"

definition region_reloaded :: state where
  "region_reloaded =
     run_reaction 2
       (resume_fieldValues 2
          (FetchOk [\<lparr>hfield = ''region'', hvalues = [Some ''eu-west'']\<rparr>])
          (resume_addLabelsToSQlQuery to_string 2 (Some region_query_context)
             region_superseded))"

text \<open>The response to the fetch that promise 0 issued for the first time range.\<close>

definition stale_response :: fetch_result where
  "stale_response =
     FetchOk [\<lparr>hfield = ''region'', hvalues = [Some ''us-east'', Some ''us-west'']\<rparr>]"

text \<open>
  \<open>host\<close> refers to \<open>$region\<close>. After \<open>region\<close> has loaded, the load of \<open>host\<close>
  (promise 2) waits for \<open>addLabelsToSQlQuery\<close> when the time range changes and
  \<open>region\<close> is loaded again (promise 3); then the query of promise 2 arrives.
\<close>

definition host_query_context :: string where
  "host_query_context = ''SELECT _timestamp FROM 'logs' WHERE region = '$region' ''"

definition host_loading :: state where
  "host_loading =
     run_reaction 0
       (resume_fieldValues 0
          (FetchOk [\<lparr>hfield = ''region'', hvalues = [Some ''us-east'', Some ''us-west'']\<rparr>])
          region_in_flight)"

definition host_superseded :: state where
  "host_superseded = run_reaction 2 (watch_selectedTimeDate later_range host_loading)"

definition host_deferred :: state where
  "host_deferred =
     resume_addLabelsToSQlQuery to_string 2 (Some host_query_context) host_superseded"

definition host_response :: fetch_result where
  "host_response = FetchOk [\<lparr>hfield = ''host'', hvalues = [Some ''h1'']\<rparr>]"

text \<open>
  Three variables: \<open>env\<close> is fetched, \<open>env_id\<close> is a constant, and the filter of
  \<open>svc\<close> refers to \<open>$env_id\<close>, so that \<open>env_id\<close> is the only parent of \<open>svc\<close>. A cycle
  starts, the constant resolves and its handler starts the load of \<open>svc\<close> (promise 3)
  while \<open>env\<close> is still loading.
\<close>

definition env_svc_state :: state where
  "env_svc_state =
    \<lparr>heap = [mk_variable ''env'' QueryValues False SelectDefault [],
             (mk_variable ''env_id'' Constant False SelectDefault [])
                \<lparr>val := Scalar (SStr ''42'')\<rparr>,
             mk_variable ''svc'' QueryValues False SelectDefault []],
     values_list = [0, 1, 2], isVariablesLoading = False,
     variablesDependencyGraph =
       [(''env'', \<lparr>parentVariables = [], childVariables = []\<rparr>),
        (''env_id'', \<lparr>parentVariables = [], childVariables = [''svc'']\<rparr>),
        (''svc'', \<lparr>parentVariables = [''env_id''], childVariables = []\<rparr>)],
     oldVariablesData = [], currentlyExecutingPromises = [], promises = [],
     selectedTimeDate = \<lparr>start_time = Some 100, end_time = Some 200\<rparr>,
     fieldValuesCalls = [], emitted = []\<rparr>"

definition svc_loading :: state where
  "svc_loading = run_reaction 1 (loadAllVariablesData env_svc_state)"

definition svc_query_context :: string where
  "svc_query_context = ''SELECT _timestamp FROM 'logs' WHERE id = '$env_id' ''"

definition svc_deferred :: state where
  "svc_deferred = resume_addLabelsToSQlQuery to_string 3 (Some svc_query_context) svc_loading"

definition svc_response :: fetch_result where
  "svc_response = FetchOk [\<lparr>hfield = ''svc'', hvalues = [Some ''api'', Some ''web'']\<rparr>]"

text \<open>The component is mounted with the configuration of \<open>region\<close> and \<open>host\<close>.\<close>

definition region_host_config :: "variable list" where
  "region_host_config =
     [mk_variable ''region'' QueryValues False SelectDefault [],
      mk_variable ''host'' QueryValues False SelectDefault []]"

definition region_host_graph :: "variable list \<Rightarrow> (string \<times> graph_node) list" where
  "region_host_graph vs =
     [(''region'', \<lparr>parentVariables = [], childVariables = [''host'']\<rparr>),
      (''host'', \<lparr>parentVariables = [''region''], childVariables = []\<rparr>)]"

definition mounted :: state where
  "mounted =
     onMounted (Some region_host_config) [] False region_host_graph
       (initial_state \<lparr>start_time = Some 100, end_time = Some 200\<rparr>)"

section \<open>Reconciliation: the claims\<close>

lemma filter_map_ovalue:
  "filter P (map ovalue os) = map ovalue (filter (\<lambda>opt. P (ovalue opt)) os)"
  by (induction os) auto

lemma find_value_in:
  "x \<in> ovalue ` set os \<Longrightarrow> find_value (\<lambda>opt. ovalue opt = x) os = x"
  by (induction os) (auto simp: find_value_def)

lemma find_value_notin:
  "x \<notin> ovalue ` set os \<Longrightarrow> find_value (\<lambda>opt. ovalue opt = x) os = SUndefined"
  by (induction os) (auto simp: find_value_def)

text \<open>
  C3, as the claim states it, fails for a \<open>custom\<close> variable: with the policy \<open>all\<close>,
  no option flagged \<open>selected\<close> and no old selection, \<open>handleCustomVariablesLogic\<close>
  selects the first option only, not every option.
\<close>

theorem C3_custom_ignores_select_all:
  "val (handleCustomVariablesLogic env_custom []) \<noteq> Arr (multi_select_spec env_custom [])"
  by (simp add: handleCustomVariablesLogic_def multi_select_spec_def env_custom_def
      env_options_def mk_variable_def mk_option_def)

text \<open>
  C3, amended. For a multi-select variable with at least one option:
  \<open>handleQueryValuesLogic\<close> selects the option values found in the old selection, in
  option order, when there is one; otherwise every option value under the policy \<open>all\<close>,
  the option values found in \<open>customMultiSelectValue\<close> under the policy \<open>custom\<close>
  (given that the list is there), and the first option value alone under any other policy.
  \<open>handleCustomVariablesLogic\<close> selects the same intersection when there is one;
  otherwise the values of the options flagged \<open>selected\<close>, and the first option value
  alone when no option is flagged. For both, an old selection that is a non-empty
  subset of the option values is reproduced as a set, in option order.
\<close>

theorem C3_multi_select_reconciliation:
  assumes "multiSelect v" and "options v \<noteq> []"
    and "selectAllValueForMultiSelect v = SelectCustom \<longrightarrow> customMultiSelectValue v \<noteq> None"
  shows "handleQueryValuesLogic v old = Inr (v\<lparr>val := Arr (multi_select_spec v old)\<rparr>)
    \<and> handleCustomVariablesLogic v old =
        v\<lparr>val := Arr (let inter = filter (\<lambda>x. x \<in> set old) (map ovalue (options v));
                          sel = map ovalue (filter oselected (options v))
                      in if inter \<noteq> [] then inter else if sel \<noteq> [] then sel
                         else [ovalue (hd (options v))])\<rparr>
    \<and> (old \<noteq> [] \<and> set old \<subseteq> ovalue ` set (options v) \<longrightarrow>
         (\<exists>sel. handleQueryValuesLogic v old = Inr (v\<lparr>val := Arr sel\<rparr>)
              \<and> handleCustomVariablesLogic v old = v\<lparr>val := Arr sel\<rparr>
              \<and> set sel = set old
              \<and> sel = filter (\<lambda>x. x \<in> set old) (map ovalue (options v))))"
proof -
  let ?inter = "filter (\<lambda>x. x \<in> set old) (map ovalue (options v))"
  let ?custom = "v\<lparr>val := Arr (let inter = ?inter;
                          sel = map ovalue (filter oselected (options v))
                      in if inter \<noteq> [] then inter else if sel \<noteq> [] then sel
                         else [ovalue (hd (options v))])\<rparr>"
  have q: "handleQueryValuesLogic v old = Inr (v\<lparr>val := Arr (multi_select_spec v old)\<rparr>)"
    using assms
    by (cases "options v"; cases "selectAllValueForMultiSelect v")
       (auto simp: handleQueryValuesLogic_def multi_select_spec_def custom_values_def Let_def
             filter_map_ovalue split: option.splits)
  have c: "handleCustomVariablesLogic v old = ?custom"
    using assms(1,2)
    by (cases "options v")
       (auto simp: handleCustomVariablesLogic_def Let_def filter_map_ovalue)
  have s: "?inter \<noteq> [] \<and> set ?inter = set old"
    if ne: "old \<noteq> []" and sub: "set old \<subseteq> ovalue ` set (options v)"
  proof -
    have eq: "set ?inter = set old" using sub by auto
    have "set old \<noteq> {}" using ne by simp
    with eq have "set ?inter \<noteq> {}" by simp
    then have "?inter \<noteq> []" by (metis set_empty)
    with eq show ?thesis by simp
  qed
  have r: "\<exists>sel. handleQueryValuesLogic v old = Inr (v\<lparr>val := Arr sel\<rparr>)
              \<and> handleCustomVariablesLogic v old = v\<lparr>val := Arr sel\<rparr>
              \<and> set sel = set old \<and> sel = ?inter"
    if a: "old \<noteq> [] \<and> set old \<subseteq> ovalue ` set (options v)"
  proof -
    from a s have i: "?inter \<noteq> []" "set ?inter = set old" by auto
    have "multi_select_spec v old = ?inter"
      using i by (simp add: multi_select_spec_def Let_def)
    with q c i show ?thesis by (intro exI[of _ ?inter]) (simp add: Let_def)
  qed
  from q c r show ?thesis by blast
qed

theorem C3_multi_select_reconciliation_witness:
  "handleQueryValuesLogic env_query [] =
     Inr (env_query\<lparr>val := Arr [SStr ''prod'', SStr ''staging'', SStr ''dev'']\<rparr>)
   \<and> handleCustomVariablesLogic env_custom [SStr ''dev'', SStr ''prod''] =
     env_custom\<lparr>val := Arr [SStr ''prod'', SStr ''dev'']\<rparr>"
proof -
  have q: "multiSelect env_query" "options env_query \<noteq> []"
    "selectAllValueForMultiSelect env_query = SelectCustom
       \<longrightarrow> customMultiSelectValue env_query \<noteq> None"
    by (simp_all add: env_query_def env_options_def mk_variable_def)
  have c: "multiSelect env_custom" "options env_custom \<noteq> []"
    "selectAllValueForMultiSelect env_custom = SelectCustom
       \<longrightarrow> customMultiSelectValue env_custom \<noteq> None"
    by (simp_all add: env_custom_def env_options_def mk_variable_def)
  have "multi_select_spec env_query [] = [SStr ''prod'', SStr ''staging'', SStr ''dev'']"
    by (simp add: multi_select_spec_def env_query_def env_options_def mk_variable_def
        mk_option_def)
  moreover have "options env_custom = env_options"
    by (simp add: env_custom_def mk_variable_def)
  ultimately show ?thesis
    using C3_multi_select_reconciliation [OF q, of "[]"]
      C3_multi_select_reconciliation [OF c, of "[SStr ''dev'', SStr ''prod'']"]
    by (simp add: env_options_def mk_option_def)
qed

text \<open>
  C4, as the claim states it, fails: of an old selection with several values only the
  first is looked up. With the old selection \<open>[eu, us-west]\<close> and the options
  \<open>[us-east, us-west]\<close> the claim selects \<open>us-west\<close>, the code \<open>us-east\<close>.
\<close>

theorem C4_only_first_old_value_is_tried:
  "handleQueryValuesLogic region_query [SStr ''eu'', SStr ''us-west'']
   \<noteq> Inr (region_query\<lparr>val :=
           Scalar (single_select_spec region_query [SStr ''eu'', SStr ''us-west''])\<rparr>)"
  by (simp add: handleQueryValuesLogic_def single_select_spec_def region_query_def
      find_value_def mk_variable_def mk_option_def)

text \<open>
  C4, amended. For a single-select variable whose first old value is either a non-empty
  string or no option value: the selection is the first old value when it is an option
  value. Otherwise, without options it is \<open>null\<close>; with options,
  \<open>handleQueryValuesLogic\<close> selects, under the policy \<open>custom\<close> (given that
  \<open>customMultiSelectValue\<close> is there), the first custom value when it is an option value
  and not \<open>null\<close> or \<open>undefined\<close>, and the first option value in every other case, while
  \<open>handleCustomVariablesLogic\<close> selects the value of the first option flagged
  \<open>selected\<close>, and the first option value when none is flagged.
\<close>

theorem C4_single_select_reconciliation:
  assumes "\<not> multiSelect v"
    and "truthy_scalar (first_elem old) \<or> first_elem old \<notin> ovalue ` set (options v)"
    and "selectAllValueForMultiSelect v = SelectCustom \<longrightarrow> customMultiSelectValue v \<noteq> None"
  shows "handleQueryValuesLogic v old =
           Inr (v\<lparr>val := Scalar
             (if first_elem old \<in> ovalue ` set (options v) then first_elem old
              else case options v of
                [] \<Rightarrow> SNull
              | opt0 # _ \<Rightarrow>
                  (if selectAllValueForMultiSelect v = SelectCustom
                      \<and> first_elem (custom_values v) \<in> ovalue ` set (options v)
                      \<and> \<not> nullish (first_elem (custom_values v))
                   then first_elem (custom_values v)
                   else ovalue opt0))\<rparr>)
       \<and> handleCustomVariablesLogic v old =
           v\<lparr>val := Scalar
             (if first_elem old \<in> ovalue ` set (options v) then first_elem old
              else case options v of
                [] \<Rightarrow> SNull
              | opt0 # _ \<Rightarrow>
                  (case filter oselected (options v) of
                     [] \<Rightarrow> ovalue opt0
                   | s # _ \<Rightarrow> ovalue s))\<rparr>"
proof (cases "first_elem old \<in> ovalue ` set (options v)")
  case True
  with assms(2) have t: "truthy_scalar (first_elem old)" by blast
  from True have f: "find_value (\<lambda>opt. ovalue opt = first_elem old) (options v) = first_elem old"
    by (rule find_value_in)
  show ?thesis using assms(1) True t f
    by (simp add: handleQueryValuesLogic_def handleCustomVariablesLogic_def Let_def)
next
  case False
  then have f: "find_value (\<lambda>opt. ovalue opt = first_elem old) (options v) = SUndefined"
    by (rule find_value_notin)
  have q: "handleQueryValuesLogic v old =
           Inr (v\<lparr>val := Scalar
             (case options v of
                [] \<Rightarrow> SNull
              | opt0 # _ \<Rightarrow>
                  (if selectAllValueForMultiSelect v = SelectCustom
                      \<and> first_elem (custom_values v) \<in> ovalue ` set (options v)
                      \<and> \<not> nullish (first_elem (custom_values v))
                   then first_elem (custom_values v)
                   else ovalue opt0))\<rparr>)"
  proof (cases "options v")
    case Nil
    then show ?thesis using assms(1) f
      by (simp add: handleQueryValuesLogic_def Let_def)
  next
    case (Cons opt0 rest)
    show ?thesis
    proof (cases "selectAllValueForMultiSelect v = SelectCustom")
      case sc: True
      with assms(3) obtain custom where cu: "customMultiSelectValue v = Some custom" by auto
      show ?thesis
      proof (cases "first_elem custom \<in> ovalue ` set (options v)")
        case True
        then have "find_value (\<lambda>opt. ovalue opt = first_elem custom) (options v)
                     = first_elem custom"
          by (rule find_value_in)
        then show ?thesis using assms(1) f Cons sc cu True
          by (simp add: handleQueryValuesLogic_def custom_values_def Let_def)
      next
        case False
        then have "find_value (\<lambda>opt. ovalue opt = first_elem custom) (options v) = SUndefined"
          by (rule find_value_notin)
        then show ?thesis using assms(1) f Cons sc cu False
          by (simp add: handleQueryValuesLogic_def custom_values_def Let_def)
      qed
    next
      case False
      then show ?thesis using assms(1) f Cons
        by (simp add: handleQueryValuesLogic_def Let_def)
    qed
  qed
  have c: "handleCustomVariablesLogic v old =
           v\<lparr>val := Scalar
             (case options v of
                [] \<Rightarrow> SNull
              | opt0 # _ \<Rightarrow>
                  (case filter oselected (options v) of
                     [] \<Rightarrow> ovalue opt0
                   | s # _ \<Rightarrow> ovalue s))\<rparr>"
    using assms(1) f
    by (cases "options v"; cases "filter oselected (options v)")
       (simp_all add: handleCustomVariablesLogic_def Let_def)
  show ?thesis using q c False by simp
qed

theorem C4_single_select_reconciliation_witness:
  "handleQueryValuesLogic region_query [] = Inr (region_query\<lparr>val := Scalar (SStr ''us-east'')\<rparr>)
   \<and> handleQueryValuesLogic region_query [SStr ''us-west''] =
       Inr (region_query\<lparr>val := Scalar (SStr ''us-west'')\<rparr>)"
proof -
  have a: "\<not> multiSelect region_query"
    "selectAllValueForMultiSelect region_query = SelectCustom
       \<longrightarrow> customMultiSelectValue region_query \<noteq> None"
    by (simp_all add: region_query_def mk_variable_def)
  have o: "ovalue ` set (options region_query) = {SStr ''us-east'', SStr ''us-west''}"
    by (simp add: region_query_def mk_variable_def mk_option_def)
  have b1: "truthy_scalar (first_elem []) \<or> first_elem [] \<notin> ovalue ` set (options region_query)"
    by (simp add: o)
  have b2: "truthy_scalar (first_elem [SStr ''us-west''])
      \<or> first_elem [SStr ''us-west''] \<notin> ovalue ` set (options region_query)"
    by simp
  have opts: "options region_query = [mk_option ''us-east'' False, mk_option ''us-west'' False]"
    and pol: "selectAllValueForMultiSelect region_query = SelectDefault"
    by (simp_all add: region_query_def mk_variable_def)
  show ?thesis
    using C4_single_select_reconciliation [OF a(1) b1 a(2)]
      C4_single_select_reconciliation [OF a(1) b2 a(2)]
    by (simp add: o opts pol mk_option_def)
qed

section \<open>The primitives, field by field\<close>

lemma settle_promise_fields [simp]:
  "heap (settle_promise p r st) = heap st"
  "values_list (settle_promise p r st) = values_list st"
  "isVariablesLoading (settle_promise p r st) = isVariablesLoading st"
  "variablesDependencyGraph (settle_promise p r st) = variablesDependencyGraph st"
  "oldVariablesData (settle_promise p r st) = oldVariablesData st"
  "currentlyExecutingPromises (settle_promise p r st) = currentlyExecutingPromises st"
  "selectedTimeDate (settle_promise p r st) = selectedTimeDate st"
  "fieldValuesCalls (settle_promise p r st) = fieldValuesCalls st"
  "emitted (settle_promise p r st) = emitted st"
  by (simp_all add: settle_promise_def)

lemma resolve_fields [simp]:
  "heap (resolve p b st) = heap st"
  "values_list (resolve p b st) = values_list st"
  "isVariablesLoading (resolve p b st) = isVariablesLoading st"
  "variablesDependencyGraph (resolve p b st) = variablesDependencyGraph st"
  "oldVariablesData (resolve p b st) = oldVariablesData st"
  "currentlyExecutingPromises (resolve p b st) = currentlyExecutingPromises st"
  "selectedTimeDate (resolve p b st) = selectedTimeDate st"
  "fieldValuesCalls (resolve p b st) = fieldValuesCalls st"
  "emitted (resolve p b st) = emitted st"
  by (simp_all add: resolve_def)

lemma reject_fields [simp]:
  "heap (reject p st) = heap st"
  "values_list (reject p st) = values_list st"
  "isVariablesLoading (reject p st) = isVariablesLoading st"
  "variablesDependencyGraph (reject p st) = variablesDependencyGraph st"
  "oldVariablesData (reject p st) = oldVariablesData st"
  "currentlyExecutingPromises (reject p st) = currentlyExecutingPromises st"
  "selectedTimeDate (reject p st) = selectedTimeDate st"
  "fieldValuesCalls (reject p st) = fieldValuesCalls st"
  "emitted (reject p st) = emitted st"
  by (simp_all add: reject_def)

lemma set_stage_fields [simp]:
  "heap (set_stage p s st) = heap st"
  "values_list (set_stage p s st) = values_list st"
  "isVariablesLoading (set_stage p s st) = isVariablesLoading st"
  "variablesDependencyGraph (set_stage p s st) = variablesDependencyGraph st"
  "oldVariablesData (set_stage p s st) = oldVariablesData st"
  "currentlyExecutingPromises (set_stage p s st) = currentlyExecutingPromises st"
  "selectedTimeDate (set_stage p s st) = selectedTimeDate st"
  "fieldValuesCalls (set_stage p s st) = fieldValuesCalls st"
  "emitted (set_stage p s st) = emitted st"
  by (simp_all add: set_stage_def not_less list_update_beyond)

lemma new_promise_fields [simp]:
  "heap (new_promise idx st) = heap st"
  "values_list (new_promise idx st) = values_list st"
  "isVariablesLoading (new_promise idx st) = isVariablesLoading st"
  "variablesDependencyGraph (new_promise idx st) = variablesDependencyGraph st"
  "oldVariablesData (new_promise idx st) = oldVariablesData st"
  "currentlyExecutingPromises (new_promise idx st) = currentlyExecutingPromises st"
  "selectedTimeDate (new_promise idx st) = selectedTimeDate st"
  "fieldValuesCalls (new_promise idx st) = fieldValuesCalls st"
  "emitted (new_promise idx st) = emitted st"
  by (simp_all add: new_promise_def)

lemma install_reject_fields [simp]:
  "heap (install_reject n p a st) = heap st"
  "values_list (install_reject n p a st) = values_list st"
  "isVariablesLoading (install_reject n p a st) = isVariablesLoading st"
  "variablesDependencyGraph (install_reject n p a st) = variablesDependencyGraph st"
  "oldVariablesData (install_reject n p a st) = oldVariablesData st"
  "selectedTimeDate (install_reject n p a st) = selectedTimeDate st"
  "fieldValuesCalls (install_reject n p a st) = fieldValuesCalls st"
  "emitted (install_reject n p a st) = emitted st"
  by (simp_all add: install_reject_def not_less list_update_beyond)

lemma clear_handle_fields [simp]:
  "heap (clear_handle n st) = heap st"
  "values_list (clear_handle n st) = values_list st"
  "isVariablesLoading (clear_handle n st) = isVariablesLoading st"
  "variablesDependencyGraph (clear_handle n st) = variablesDependencyGraph st"
  "oldVariablesData (clear_handle n st) = oldVariablesData st"
  "promises (clear_handle n st) = promises st"
  "selectedTimeDate (clear_handle n st) = selectedTimeDate st"
  "fieldValuesCalls (clear_handle n st) = fieldValuesCalls st"
  "emitted (clear_handle n st) = emitted st"
  by (simp_all add: clear_handle_def)

lemma set_old_fields [simp]:
  "heap (set_old n v st) = heap st"
  "values_list (set_old n v st) = values_list st"
  "isVariablesLoading (set_old n v st) = isVariablesLoading st"
  "variablesDependencyGraph (set_old n v st) = variablesDependencyGraph st"
  "currentlyExecutingPromises (set_old n v st) = currentlyExecutingPromises st"
  "promises (set_old n v st) = promises st"
  "selectedTimeDate (set_old n v st) = selectedTimeDate st"
  "fieldValuesCalls (set_old n v st) = fieldValuesCalls st"
  "emitted (set_old n v st) = emitted st"
  by (simp_all add: set_old_def)

lemma mark_reacted_fields [simp]:
  "heap (mark_reacted p st) = heap st"
  "values_list (mark_reacted p st) = values_list st"
  "isVariablesLoading (mark_reacted p st) = isVariablesLoading st"
  "variablesDependencyGraph (mark_reacted p st) = variablesDependencyGraph st"
  "oldVariablesData (mark_reacted p st) = oldVariablesData st"
  "currentlyExecutingPromises (mark_reacted p st) = currentlyExecutingPromises st"
  "selectedTimeDate (mark_reacted p st) = selectedTimeDate st"
  "fieldValuesCalls (mark_reacted p st) = fieldValuesCalls st"
  "emitted (mark_reacted p st) = emitted st"
  by (simp_all add: mark_reacted_def not_less list_update_beyond)

lemma call_fieldValues_fields [simp]:
  "heap (call_fieldValues p q st) = heap st"
  "values_list (call_fieldValues p q st) = values_list st"
  "isVariablesLoading (call_fieldValues p q st) = isVariablesLoading st"
  "variablesDependencyGraph (call_fieldValues p q st) = variablesDependencyGraph st"
  "oldVariablesData (call_fieldValues p q st) = oldVariablesData st"
  "currentlyExecutingPromises (call_fieldValues p q st) = currentlyExecutingPromises st"
  "promises (call_fieldValues p q st) = promises st"
  "selectedTimeDate (call_fieldValues p q st) = selectedTimeDate st"
  "emitted (call_fieldValues p q st) = emitted st"
  by (simp_all add: call_fieldValues_def)

lemma reject_stored_fields [simp]:
  "heap (reject_stored n st) = heap st"
  "values_list (reject_stored n st) = values_list st"
  "isVariablesLoading (reject_stored n st) = isVariablesLoading st"
  "variablesDependencyGraph (reject_stored n st) = variablesDependencyGraph st"
  "oldVariablesData (reject_stored n st) = oldVariablesData st"
  "currentlyExecutingPromises (reject_stored n st) = currentlyExecutingPromises st"
  "selectedTimeDate (reject_stored n st) = selectedTimeDate st"
  "fieldValuesCalls (reject_stored n st) = fieldValuesCalls st"
  "emitted (reject_stored n st) = emitted st"
  by (simp_all add: reject_stored_def split: option.splits)

lemma update_object_fields [simp]:
  "values_list (update_object a f st) = values_list st"
  "isVariablesLoading (update_object a f st) = isVariablesLoading st"
  "variablesDependencyGraph (update_object a f st) = variablesDependencyGraph st"
  "oldVariablesData (update_object a f st) = oldVariablesData st"
  "currentlyExecutingPromises (update_object a f st) = currentlyExecutingPromises st"
  "promises (update_object a f st) = promises st"
  "selectedTimeDate (update_object a f st) = selectedTimeDate st"
  "fieldValuesCalls (update_object a f st) = fieldValuesCalls st"
  "emitted (update_object a f st) = emitted st"
  by (simp_all add: update_object_def)

lemma emitVariablesData_fields [simp]:
  "heap (emitVariablesData st) = heap st"
  "values_list (emitVariablesData st) = values_list st"
  "isVariablesLoading (emitVariablesData st) = isVariablesLoading st"
  "variablesDependencyGraph (emitVariablesData st) = variablesDependencyGraph st"
  "oldVariablesData (emitVariablesData st) = oldVariablesData st"
  "currentlyExecutingPromises (emitVariablesData st) = currentlyExecutingPromises st"
  "promises (emitVariablesData st) = promises st"
  "selectedTimeDate (emitVariablesData st) = selectedTimeDate st"
  "fieldValuesCalls (emitVariablesData st) = fieldValuesCalls st"
  by (simp_all add: emitVariablesData_def)

lemma promises_length [simp]:
  "length (promises (settle_promise p r st)) = length (promises st)"
  "length (promises (resolve p b st)) = length (promises st)"
  "length (promises (reject p st)) = length (promises st)"
  "length (promises (set_stage p s st)) = length (promises st)"
  "length (promises (new_promise idx st)) = Suc (length (promises st))"
  "length (promises (install_reject n p a st)) = length (promises st)"
  "length (promises (mark_reacted p st)) = length (promises st)"
  "length (promises (reject_stored n st)) = length (promises st)"
  by (simp_all add: settle_promise_def resolve_def reject_def set_stage_def new_promise_def
      install_reject_def mark_reacted_def reject_stored_def split: option.splits)

lemma settled_settle_promise:
  "q < length (promises st) \<Longrightarrow>
   settled (promises (settle_promise p r st) ! q) =
     (if q = p \<and> settled (promises st ! q) = Unsettled then r else settled (promises st ! q))"
  by (auto simp: settle_promise_def)

lemma settled_resolve:
  "q < length (promises st) \<Longrightarrow>
   settled (promises (resolve p b st) ! q) =
     (if q = p \<and> settled (promises st ! q) = Unsettled then Fulfilled b
      else settled (promises st ! q))"
  by (simp add: resolve_def settled_settle_promise)

lemma settled_reject:
  "q < length (promises st) \<Longrightarrow>
   settled (promises (reject p st) ! q) =
     (if q = p \<and> settled (promises st ! q) = Unsettled then Rejected
      else settled (promises st ! q))"
  by (simp add: reject_def settled_settle_promise)

lemma settled_reject_stored:
  "q < length (promises st) \<Longrightarrow>
   settled (promises (reject_stored n st) ! q) =
     (if map_of (currentlyExecutingPromises st) n = Some (Some q)
         \<and> settled (promises st ! q) = Unsettled
      then Rejected else settled (promises st ! q))"
  by (auto simp: reject_stored_def settled_reject split: option.splits)

lemma settled_set_stage [simp]:
  "settled (promises (set_stage p s st) ! q) = settled (promises st ! q)"
  by (cases "p < length (promises st)"; cases "q = p") (simp_all add: set_stage_def not_less list_update_beyond)

lemma settled_install_reject [simp]:
  "settled (promises (install_reject n p a st) ! q) = settled (promises st ! q)"
  by (cases "p < length (promises st)"; cases "q = p") (simp_all add: install_reject_def not_less list_update_beyond)

lemma settled_mark_reacted [simp]:
  "settled (promises (mark_reacted p st) ! q) = settled (promises st ! q)"
  by (cases "p < length (promises st)"; cases "q = p") (simp_all add: mark_reacted_def not_less list_update_beyond)

lemma settled_new_promise:
  "settled (promises (new_promise idx st) ! q) =
     (if q < length (promises st) then settled (promises st ! q)
      else if q = length (promises st) then Unsettled
      else settled (promises (new_promise idx st) ! q))"
  by (simp add: new_promise_def nth_append)

lemma handle_install_reject [simp]:
  "map_of (currentlyExecutingPromises (install_reject n p a st)) m =
     (if m = n then Some (Some p) else map_of (currentlyExecutingPromises st) m)"
  by (simp add: install_reject_def update_conv')

lemma handle_clear_handle [simp]:
  "map_of (currentlyExecutingPromises (clear_handle n st)) m =
     (if m = n then Some None else map_of (currentlyExecutingPromises st) m)"
  by (simp add: clear_handle_def update_conv')

lemma heap_update_object [simp]:
  "heap (update_object a f st) = (heap st)[a := f (heap st ! a)]"
  by (simp add: update_object_def)

lemma at_index_nonneg: "at_index xs i = Some a \<Longrightarrow> 0 \<le> i"
  by (simp add: at_index_def split: if_splits)

lemma at_index_negative [simp]: "i < 0 \<Longrightarrow> at_index xs i = None"
  by (simp add: at_index_def)

section \<open>What the code does to a variable\<close>



lemma nth_update_cases:
  "(h[a := x]) ! b = (if b = a \<and> a < length h then x else h ! b)"
  by (cases "a < length h") (auto simp: list_update_beyond not_less)









section \<open>One attempt\<close>

text \<open>The lemmas named \<open>lsv\<close> are about one call of
  \<open>loadSingleVariableDataByIndex\<close>.\<close>

lemma lsv_frame:
  "values_list (loadSingleVariableDataByIndex idx st) = values_list st"
  "isVariablesLoading (loadSingleVariableDataByIndex idx st) = isVariablesLoading st"
  "variablesDependencyGraph (loadSingleVariableDataByIndex idx st) = variablesDependencyGraph st"
  "oldVariablesData (loadSingleVariableDataByIndex idx st) = oldVariablesData st"
  "selectedTimeDate (loadSingleVariableDataByIndex idx st) = selectedTimeDate st"
  "fieldValuesCalls (loadSingleVariableDataByIndex idx st) = fieldValuesCalls st"
  "emitted (loadSingleVariableDataByIndex idx st) = emitted st"
  "length (promises (loadSingleVariableDataByIndex idx st)) = Suc (length (promises st))"
  by (simp_all add: loadSingleVariableDataByIndex_def Let_def
      split: option.splits vtype.splits)

lemma lsv_handle:
  assumes "at_index (values_list st) idx = Some a"
  shows "map_of (currentlyExecutingPromises (loadSingleVariableDataByIndex idx st))
           (name (heap st ! a)) = Some (Some (length (promises st)))"
  using assms
  by (simp add: loadSingleVariableDataByIndex_def Let_def
      split: option.splits vtype.splits)

lemma lsv_old_promise:
  assumes "at_index (values_list st) idx = Some a" and "q < length (promises st)"
  shows "settled (promises (loadSingleVariableDataByIndex idx st) ! q) =
     (if map_of (currentlyExecutingPromises st) (name (heap st ! a)) = Some (Some q)
         \<and> settled (promises st ! q) = Unsettled
      then Rejected else settled (promises st ! q))"
proof -
  have nn: "\<not> idx < 0" using assms(1) by (auto dest: at_index_nonneg)
  have q': "q < length (promises (new_promise idx st))" using assms(2) by simp
  have base: "settled (promises (install_reject (name (heap st ! a)) (length (promises st)) a
       (reject_stored (name (heap st ! a)) (new_promise idx st))) ! q) =
     (if map_of (currentlyExecutingPromises st) (name (heap st ! a)) = Some (Some q)
         \<and> settled (promises st ! q) = Unsettled
      then Rejected else settled (promises st ! q))"
    using assms(2) q' by (simp add: settled_reject_stored settled_new_promise)
  have q'': "q < length (promises (install_reject (name (heap st ! a)) (length (promises st)) a
       (reject_stored (name (heap st ! a)) (new_promise idx st))))" using assms(2) by simp
  have ne: "q \<noteq> length (promises st)" using assms(2) by simp
  show ?thesis
    using assms(1) nn base q'' ne
    by (simp add: loadSingleVariableDataByIndex_def Let_def settled_resolve
        split: option.splits vtype.splits)
qed


lemma blocked_cong:
  assumes "heap st' = heap st" and "values_list st' = values_list st"
  shows "isAnyDepndentVariableLoadingPending st' ps = isAnyDepndentVariableLoadingPending st ps"
  unfolding isAnyDepndentVariableLoadingPending_def find_variable_def assms ..

text \<open>What one attempt does to the store.\<close>

lemma lsv_heap:
  "heap (loadSingleVariableDataByIndex idx st) =
    (case at_index (values_list st) idx of
       None \<Rightarrow> heap st
     | Some a \<Rightarrow>
        (if isVariableLoadingPending (heap st ! a)
            \<and> \<not> isInvalidDate (start_time (selectedTimeDate st))
            \<and> \<not> isInvalidDate (end_time (selectedTimeDate st))
         then
           (case map_of (variablesDependencyGraph st) (name (heap st ! a)) of
              None \<Rightarrow> heap st
            | Some node \<Rightarrow>
               if isAnyDepndentVariableLoadingPending st (parentVariables node) then heap st
               else
                 (case vtype (heap st ! a) of
                    QueryValues \<Rightarrow> (heap st)[a := (heap st ! a)\<lparr>isLoading := True\<rparr>]
                  | Custom \<Rightarrow>
                      (heap st)[a := handleCustomVariablesLogic (heap st ! a)
                                       (old_selected_values (old_value st (name (heap st ! a))))]
                  | _ \<Rightarrow> heap st))
         else heap st))"
proof -
  have b: "isAnyDepndentVariableLoadingPending
             (install_reject n p a (reject_stored n (new_promise idx st))) ps
           = isAnyDepndentVariableLoadingPending st ps" for n p a ps
    by (rule blocked_cong) simp_all
  have o: "old_value (install_reject n p a (reject_stored n (new_promise idx st))) m
           = old_value st m" for n p a m
    by (simp add: old_value_def)
  show ?thesis
    by (cases "idx < 0")
       (simp_all add: loadSingleVariableDataByIndex_def Let_def b o
          split: option.splits vtype.splits)
qed

lemma lsv_heap_none:
  "at_index (values_list st) idx = None \<Longrightarrow> heap (loadSingleVariableDataByIndex idx st) = heap st"
  by (simp add: lsv_heap)

lemma lsv_heap_not_pending:
  "at_index (values_list st) idx = Some a \<Longrightarrow> \<not> isVariableLoadingPending (heap st ! a) \<Longrightarrow>
   heap (loadSingleVariableDataByIndex idx st) = heap st"
  by (simp add: lsv_heap)

lemma lsv_heap_invalid:
  "isInvalidDate (start_time (selectedTimeDate st)) \<or> isInvalidDate (end_time (selectedTimeDate st))
   \<Longrightarrow> heap (loadSingleVariableDataByIndex idx st) = heap st"
  by (cases "at_index (values_list st) idx") (auto simp: lsv_heap)



lemma lsv_heap_eligible:
  "at_index (values_list st) idx = Some a \<Longrightarrow> isVariableLoadingPending (heap st ! a) \<Longrightarrow>
   \<not> isInvalidDate (start_time (selectedTimeDate st)) \<Longrightarrow>
   \<not> isInvalidDate (end_time (selectedTimeDate st)) \<Longrightarrow>
   map_of (variablesDependencyGraph st) (name (heap st ! a)) = Some node \<Longrightarrow>
   \<not> isAnyDepndentVariableLoadingPending st (parentVariables node) \<Longrightarrow>
   heap (loadSingleVariableDataByIndex idx st) =
     (case vtype (heap st ! a) of
        QueryValues \<Rightarrow> (heap st)[a := (heap st ! a)\<lparr>isLoading := True\<rparr>]
      | Custom \<Rightarrow>
          (heap st)[a := handleCustomVariablesLogic (heap st ! a)
                           (old_selected_values (old_value st (name (heap st ! a))))]
      | _ \<Rightarrow> heap st)"
  by (simp add: lsv_heap)

text \<open>An attempt changes no object but the one at its index.\<close>

lemma lsv_heap_other:
  "at_index (values_list st) idx \<noteq> Some a \<Longrightarrow>
   heap (loadSingleVariableDataByIndex idx st) ! a = heap st ! a"
  by (cases "at_index (values_list st) idx")
     (auto simp: lsv_heap split: option.splits vtype.splits)






text \<open>
  C10. A call of \<open>loadSingleVariableDataByIndex\<close> at the index of a variable leaves its
  own promise as the variable's reject handle, and a promise that was the handle before
  is rejected by the call if it was unsettled (a settled one stays as it was). Both hold
  whether or not the variable is then found eligible.
\<close>

theorem C10_attempt_cancels_previous_load:
  assumes "at_index (values_list st) idx = Some a"
  shows "map_of (currentlyExecutingPromises (loadSingleVariableDataByIndex idx st))
           (name (heap st ! a)) = Some (Some (length (promises st)))
     \<and> (\<forall>q. map_of (currentlyExecutingPromises st) (name (heap st ! a)) = Some (Some q)
             \<and> q < length (promises st) \<longrightarrow>
            settled (promises (loadSingleVariableDataByIndex idx st) ! q) =
              (if settled (promises st ! q) = Unsettled then Rejected
               else settled (promises st ! q)))"
  using assms by (simp add: lsv_handle lsv_old_promise)

theorem C10_attempt_cancels_previous_load_witness:
  "at_index (values_list stalled_state) 0 = Some 0
   \<and> isInvalidDate (end_time (selectedTimeDate stalled_state))
   \<and> settled (promises stalled_state ! 0) = Unsettled
   \<and> map_of (currentlyExecutingPromises (loadSingleVariableDataByIndex 0 stalled_state)) ''region''
       = Some (Some 1)
   \<and> settled (promises (loadSingleVariableDataByIndex 0 stalled_state) ! 0) = Rejected"
proof -
  have a: "at_index (values_list stalled_state) 0 = Some 0"
    by (simp add: stalled_state_def at_index_def)
  have n: "name (heap stalled_state ! 0) = ''region''"
    by (simp add: stalled_state_def mk_variable_def)
  have h: "map_of (currentlyExecutingPromises stalled_state) ''region'' = Some (Some 0)"
    "0 < length (promises stalled_state)" "settled (promises stalled_state ! 0) = Unsettled"
    "length (promises stalled_state) = 1"
    "isInvalidDate (end_time (selectedTimeDate stalled_state))"
    by (simp_all add: stalled_state_def isInvalidDate_def)
  show ?thesis using C10_attempt_cancels_previous_load [OF a] a n h by simp
qed

section \<open>A resolution cycle under an invalid time range\<close>

lemma lsv_settled_stays:
  assumes "q < length (promises st)" and "settled (promises st ! q) \<noteq> Unsettled"
  shows "settled (promises (loadSingleVariableDataByIndex idx st) ! q) = settled (promises st ! q)"
proof (cases "at_index (values_list st) idx")
  case (Some a)
  with assms show ?thesis by (simp add: lsv_old_promise)
next
  case None
  have "q < length (promises (new_promise idx st))" using assms(1) by simp
  moreover have "settled (promises (new_promise idx st) ! q) = settled (promises st ! q)"
    using assms(1) by (simp add: settled_new_promise)
  ultimately show ?thesis
    using None assms
    by (simp add: loadSingleVariableDataByIndex_def Let_def settled_resolve)
qed

lemma lsv_new_promise_invalid:
  assumes "isInvalidDate (start_time (selectedTimeDate st))
           \<or> isInvalidDate (end_time (selectedTimeDate st))"
  shows "settled (promises (loadSingleVariableDataByIndex idx st) ! length (promises st))
         \<in> {Fulfilled False, Rejected}"
proof -
  let ?p = "length (promises st)"
  have n: "settled (promises (new_promise idx st) ! ?p) = Unsettled"
    by (simp add: settled_new_promise)
  have l: "?p < length (promises (new_promise idx st))" by simp
  show ?thesis
  proof (cases "at_index (values_list st) idx")
    case None
    with n l show ?thesis
      by (simp add: loadSingleVariableDataByIndex_def Let_def settled_resolve)
  next
    case (Some a)
    then have nn: "\<not> idx < 0" by (auto dest: at_index_nonneg)
    let ?n = "name (heap st ! a)"
    let ?st3 = "install_reject ?n ?p a (reject_stored ?n (new_promise idx st))"
    have s3: "settled (promises ?st3 ! ?p) = Unsettled \<or> settled (promises ?st3 ! ?p) = Rejected"
      using n l by (simp add: settled_reject_stored)
    have l3: "?p < length (promises ?st3)" by simp
    have "loadSingleVariableDataByIndex idx st = resolve ?p False ?st3"
      using Some nn assms
      by (auto simp: loadSingleVariableDataByIndex_def Let_def)
    with s3 l3 show ?thesis
      by (auto simp: settled_resolve)
  qed
qed

lemma fold_lsv_settled_stays:
  assumes "q < length (promises st)" and "settled (promises st ! q) \<noteq> Unsettled"
  shows "settled (promises (fold (\<lambda>i. loadSingleVariableDataByIndex (int i)) is st) ! q)
         = settled (promises st ! q)"
  using assms
proof (induction "is" arbitrary: st)
  case Nil
  then show ?case by simp
next
  case (Cons i "is")
  let ?st1 = "loadSingleVariableDataByIndex (int i) st"
  have s1: "settled (promises ?st1 ! q) = settled (promises st ! q)"
    using Cons.prems by (rule lsv_settled_stays)
  have "q < length (promises ?st1)" using Cons.prems(1) by (simp add: lsv_frame)
  moreover have "settled (promises ?st1 ! q) \<noteq> Unsettled" using s1 Cons.prems(2) by simp
  ultimately have "settled (promises (fold (\<lambda>i. loadSingleVariableDataByIndex (int i)) is ?st1) ! q)
         = settled (promises ?st1 ! q)"
    by (rule Cons.IH)
  with s1 show ?case by simp
qed

text \<open>The attempts of a cycle, one per index, while the time range is invalid.\<close>

lemma fold_lsv_invalid:
  assumes "isInvalidDate (start_time (selectedTimeDate st))
           \<or> isInvalidDate (end_time (selectedTimeDate st))"
  shows "heap (fold (\<lambda>i. loadSingleVariableDataByIndex (int i)) is st) = heap st
    \<and> values_list (fold (\<lambda>i. loadSingleVariableDataByIndex (int i)) is st) = values_list st
    \<and> isVariablesLoading (fold (\<lambda>i. loadSingleVariableDataByIndex (int i)) is st)
        = isVariablesLoading st
    \<and> oldVariablesData (fold (\<lambda>i. loadSingleVariableDataByIndex (int i)) is st)
        = oldVariablesData st
    \<and> fieldValuesCalls (fold (\<lambda>i. loadSingleVariableDataByIndex (int i)) is st)
        = fieldValuesCalls st
    \<and> emitted (fold (\<lambda>i. loadSingleVariableDataByIndex (int i)) is st) = emitted st
    \<and> length (promises (fold (\<lambda>i. loadSingleVariableDataByIndex (int i)) is st))
        = length (promises st) + length is
    \<and> (\<forall>q. length (promises st) \<le> q \<and> q < length (promises st) + length is \<longrightarrow>
          settled (promises (fold (\<lambda>i. loadSingleVariableDataByIndex (int i)) is st) ! q)
            \<in> {Fulfilled False, Rejected})"
  using assms
proof (induction "is" arbitrary: st)
  case Nil
  then show ?case by auto
next
  case (Cons i "is")
  let ?st1 = "loadSingleVariableDataByIndex (int i) st"
  let ?f = "fold (\<lambda>i. loadSingleVariableDataByIndex (int i)) is ?st1"
  have inv1: "isInvalidDate (start_time (selectedTimeDate ?st1))
           \<or> isInvalidDate (end_time (selectedTimeDate ?st1))"
    using Cons.prems by (simp add: lsv_frame)
  note ih = Cons.IH [OF inv1]
  have h1: "heap ?st1 = heap st" using Cons.prems by (rule lsv_heap_invalid)
  have len1: "length (promises ?st1) = Suc (length (promises st))" by (simp add: lsv_frame)
  have new1: "settled (promises ?st1 ! length (promises st)) \<in> {Fulfilled False, Rejected}"
    using Cons.prems by (rule lsv_new_promise_invalid)
  have first: "settled (promises ?f ! length (promises st)) \<in> {Fulfilled False, Rejected}"
  proof -
    have "length (promises st) < length (promises ?st1)" using len1 by simp
    moreover have "settled (promises ?st1 ! length (promises st)) \<noteq> Unsettled"
      using new1 by auto
    ultimately have "settled (promises ?f ! length (promises st))
        = settled (promises ?st1 ! length (promises st))"
      by (rule fold_lsv_settled_stays)
    with new1 show ?thesis by simp
  qed
  have frame: "heap ?f = heap st" "values_list ?f = values_list st"
    "isVariablesLoading ?f = isVariablesLoading st" "oldVariablesData ?f = oldVariablesData st"
    "fieldValuesCalls ?f = fieldValuesCalls st" "emitted ?f = emitted st"
    "length (promises ?f) = length (promises st) + length (i # is)"
    using ih h1 len1 by (simp_all add: lsv_frame)
  have new: "settled (promises ?f ! q) \<in> {Fulfilled False, Rejected}"
    if "length (promises st) \<le> q \<and> q < length (promises st) + length (i # is)" for q
  proof (cases "q = length (promises st)")
    case True
    with first show ?thesis by simp
  next
    case False
    with that have "length (promises ?st1) \<le> q \<and> q < length (promises ?st1) + length is"
      using len1 by simp
    with ih show ?thesis by blast
  qed
  show ?case using frame new by simp
qed


section \<open>Marking the descendants\<close>

lemma only_marked_refl: "only_marked st st"
  by (simp add: only_marked_def list_all2_refl)

lemma only_marked_trans:
  assumes "only_marked st st'" and "only_marked st' st''"
  shows "only_marked st st''"
proof -
  let ?R = "\<lambda>v v'. v' = v \<or> v' = v\<lparr>isVariableLoadingPending := True\<rparr>"
  have l1: "list_all2 ?R (heap st) (heap st')" and l2: "list_all2 ?R (heap st') (heap st'')"
    using assms by (simp_all add: only_marked_def)
  have tr: "?R a c" if "?R a b" "?R b c" for a b c :: variable
    using that by auto
  have "list_all2 ?R (heap st) (heap st'')"
    by (rule list_all2_trans [OF _ l1 l2]) (rule tr)
  moreover have "st'' = st\<lparr>heap := heap st''\<rparr>"
  proof -
    from assms have "st'' = st'\<lparr>heap := heap st''\<rparr>" "st' = st\<lparr>heap := heap st'\<rparr>"
      by (simp_all add: only_marked_def)
    then have "st'' = (st\<lparr>heap := heap st'\<rparr>)\<lparr>heap := heap st''\<rparr>" by simp
    then show ?thesis by simp
  qed
  ultimately show ?thesis by (simp add: only_marked_def)
qed

lemma only_marked_update:
  "only_marked st (update_object a (\<lambda>v. v\<lparr>isVariableLoadingPending := True\<rparr>) st)"
  by (auto simp: only_marked_def update_object_def list_all2_conv_all_nth nth_update_cases)

lemma marking_only_marks:
  "only_marked st (outcome_state (setLoadingStateToAllChildNode depth cur st))"
  "only_marked st (outcome_state (mark_children depth names st))"
proof (induction depth cur st and depth names st
    rule: setLoadingStateToAllChildNode_mark_children.induct)
  case (1 cur st)
  show ?case by (simp add: outcome_state_def only_marked_refl)
next
  case (2 depth cur st)
  then show ?case
    by (auto simp: outcome_state_def only_marked_refl split: option.splits)
next
  case (3 depth st)
  show ?case by (simp add: outcome_state_def only_marked_refl)
next
  case (4 depth variableName rest st)
  show ?case
  proof (cases "find_variable st variableName")
    case None
    then show ?thesis by (simp add: outcome_state_def only_marked_refl)
  next
    case (Some a)
    let ?st1 = "update_object a (\<lambda>v. v\<lparr>isVariableLoadingPending := True\<rparr>) st"
    have m1: "only_marked st ?st1" by (rule only_marked_update)
    have m2: "only_marked ?st1 (outcome_state (setLoadingStateToAllChildNode depth variableName ?st1))"
      using "4.IH"(1) [OF Some] .
    show ?thesis
    proof (cases "setLoadingStateToAllChildNode depth variableName ?st1")
      case (Threw e st')
      with m2 have "only_marked ?st1 st'" by (simp add: outcome_state_def)
      with m1 have "only_marked st st'" by (rule only_marked_trans)
      with Some Threw show ?thesis by (simp add: outcome_state_def)
    next
      case (Returned st')
      with m2 have "only_marked ?st1 st'" by (simp add: outcome_state_def)
      with m1 have a: "only_marked st st'" by (rule only_marked_trans)
      have "only_marked st' (outcome_state (mark_children depth rest st'))"
        using "4.IH"(2) [OF Some Returned] .
      with a have "only_marked st (outcome_state (mark_children depth rest st'))"
        by (rule only_marked_trans)
      with Some Returned show ?thesis by simp
    qed
  qed
qed

text \<open>
  C8, as the claim states it, fails: a time range whose end precedes its start is not
  invalid for the code, which tests each instant alone. With such a range
  \<open>loadAllVariablesData\<close> is not a no-op, and \<open>region\<close> leaves the state Pending: it
  begins to load.
\<close>

theorem C8_reversed_range_is_loaded:
  "end_time (selectedTimeDate reversed_range_state) = Some 100
   \<and> start_time (selectedTimeDate reversed_range_state) = Some 200
   \<and> \<not> isLoading (heap reversed_range_state ! 0)
   \<and> isLoading (heap (loadAllVariablesData reversed_range_state) ! 0)
   \<and> loadAllVariablesData reversed_range_state \<noteq> reversed_range_state"
proof -
  have a: "\<not> isLoading (heap reversed_range_state ! 0)"
    "end_time (selectedTimeDate reversed_range_state) = Some 100"
    "start_time (selectedTimeDate reversed_range_state) = Some 200"
    by (simp_all add: reversed_range_state_def region_host_state_def mk_variable_def)
  have b: "isLoading (heap (loadAllVariablesData reversed_range_state) ! 0)"
    by code_simp
  from a b have "loadAllVariablesData reversed_range_state \<noteq> reversed_range_state"
    by auto
  with a b show ?thesis by simp
qed

text \<open>
  C8, amended. If the start or the end of the time range is not a well-formed instant
  when a cycle is entered: \<open>loadAllVariablesData\<close> changes nothing;
  \<open>onVariablesValueUpdated\<close> changes no variable but for setting
  \<open>isVariableLoadingPending\<close> (so no variable leaves Pending, no value and no options
  change, no load begins), issues no fetch and leaves \<open>isVariablesLoading\<close> as it was,
  and each promise it creates is resolved with \<open>false\<close> or rejected, so that no handler of
  \<open>then\<close> marks a variable loaded.
\<close>

theorem C8_invalid_instant_blocks_cycle:
  assumes "isInvalidDate (start_time (selectedTimeDate st))
           \<or> isInvalidDate (end_time (selectedTimeDate st))"
  shows "loadAllVariablesData st = st
    \<and> values_list (outcome_state (onVariablesValueUpdated depth idx st)) = values_list st
    \<and> isVariablesLoading (outcome_state (onVariablesValueUpdated depth idx st))
        = isVariablesLoading st
    \<and> fieldValuesCalls (outcome_state (onVariablesValueUpdated depth idx st))
        = fieldValuesCalls st
    \<and> list_all2 (\<lambda>v v'. v' = v \<or> v' = v\<lparr>isVariableLoadingPending := True\<rparr>)
         (heap st) (heap (outcome_state (onVariablesValueUpdated depth idx st)))
    \<and> (\<forall>q. length (promises st) \<le> q
            \<and> q < length (promises (outcome_state (onVariablesValueUpdated depth idx st))) \<longrightarrow>
          settled (promises (outcome_state (onVariablesValueUpdated depth idx st)) ! q)
            \<in> {Fulfilled False, Rejected})"
proof -
  let ?R = "\<lambda>v v'. v' = v \<or> v' = v\<lparr>isVariableLoadingPending := True\<rparr>"
  let ?out = "outcome_state (onVariablesValueUpdated depth idx st)"
  have all: "loadAllVariablesData st = st"
    using assms by (auto simp: loadAllVariablesData_def)
  have one: "values_list ?out = values_list st \<and> isVariablesLoading ?out = isVariablesLoading st
    \<and> fieldValuesCalls ?out = fieldValuesCalls st \<and> list_all2 ?R (heap st) (heap ?out)
    \<and> (\<forall>q. length (promises st) \<le> q \<and> q < length (promises ?out) \<longrightarrow>
          settled (promises ?out ! q) \<in> {Fulfilled False, Rejected})"
  proof (cases "idx < 0 \<or> at_index (values_list st) idx = None")
    case True
    then have "?out = st"
      by (auto simp: onVariablesValueUpdated_def outcome_state_def)
    then show ?thesis by (auto simp: list_all2_refl)
  next
    case False
    then obtain a where a: "at_index (values_list st) idx = Some a" and nn: "\<not> idx < 0"
      by auto
    let ?st1 = "set_old (name (heap st ! a)) (val (heap st ! a)) st"
    let ?m = "setLoadingStateToAllChildNode depth (name (heap st ! a)) ?st1"
    have m: "only_marked ?st1 (outcome_state ?m)" by (rule marking_only_marks)
    then have mf: "outcome_state ?m = ?st1\<lparr>heap := heap (outcome_state ?m)\<rparr>"
      and mh: "list_all2 ?R (heap st) (heap (outcome_state ?m))"
      by (simp_all add: only_marked_def)
    have fr: "values_list (outcome_state ?m) = values_list st"
      "isVariablesLoading (outcome_state ?m) = isVariablesLoading st"
      "fieldValuesCalls (outcome_state ?m) = fieldValuesCalls st"
      "promises (outcome_state ?m) = promises st"
      "selectedTimeDate (outcome_state ?m) = selectedTimeDate st"
      by (subst mf, simp)+
    show ?thesis
    proof (cases ?m)
      case (Threw e st')
      then have "?out = st'" using a nn
        by (simp add: onVariablesValueUpdated_def outcome_state_def Let_def)
      moreover from Threw have "outcome_state ?m = st'" by (simp add: outcome_state_def)
      ultimately show ?thesis using fr mh by auto
    next
      case (Returned st2)
      then have o: "?out = fold (\<lambda>index. loadSingleVariableDataByIndex (int index))
                        [0 ..< length (values_list st2)] st2"
        using a nn by (simp add: onVariablesValueUpdated_def outcome_state_def Let_def)
      from Returned have s2: "outcome_state ?m = st2" by (simp add: outcome_state_def)
      have inv2: "isInvalidDate (start_time (selectedTimeDate st2))
           \<or> isInvalidDate (end_time (selectedTimeDate st2))"
        using assms fr(5) s2 by simp
      note f = fold_lsv_invalid [OF inv2, of "[0 ..< length (values_list st2)]"]
      show ?thesis
        unfolding o using f fr mh s2 by simp
    qed
  qed
  from all one show ?thesis by simp
qed


theorem C8_invalid_instant_blocks_cycle_witness:
  "isInvalidDate (end_time (selectedTimeDate stalled_state))
   \<and> loadAllVariablesData stalled_state = stalled_state
   \<and> values_list (outcome_state (onVariablesValueUpdated 8 0 stalled_state)) = [0]
   \<and> fieldValuesCalls (outcome_state (onVariablesValueUpdated 8 0 stalled_state))
       = fieldValuesCalls stalled_state"
proof -
  have i: "isInvalidDate (start_time (selectedTimeDate stalled_state))
           \<or> isInvalidDate (end_time (selectedTimeDate stalled_state))"
    by (simp add: stalled_state_def isInvalidDate_def)
  have v: "values_list stalled_state = [0]" "isInvalidDate (end_time (selectedTimeDate stalled_state))"
    by (simp_all add: stalled_state_def isInvalidDate_def)
  show ?thesis
    using C8_invalid_instant_blocks_cycle [OF i, of 8 0] v by simp
qed

section \<open>Marking reaches exactly the descendants\<close>

lemma mark_pending_length [simp]: "length (mark_pending S h) = length h"
  by (simp add: mark_pending_def)

lemma mark_pending_nth:
  "a < length h \<Longrightarrow>
   mark_pending S h ! a =
     (if a \<in> S then (h ! a)\<lparr>isVariableLoadingPending := True\<rparr> else h ! a)"
  by (simp add: mark_pending_def)

lemma mark_pending_empty [simp]: "mark_pending {} h = h"
  by (simp add: mark_pending_def map_nth)

lemma mark_pending_insert:
  assumes "a < length h"
  shows "(mark_pending T h)[a := (mark_pending T h ! a)\<lparr>isVariableLoadingPending := True\<rparr>]
         = mark_pending (insert a T) h"
  using assms by (intro nth_equalityI) (auto simp: mark_pending_nth nth_list_update)

lemma marked_fields [simp]:
  "heap (marked st T) = mark_pending T (heap st)"
  "values_list (marked st T) = values_list st"
  "variablesDependencyGraph (marked st T) = variablesDependencyGraph st"
  by (simp_all add: marked_def)

lemma marked_empty [simp]: "marked st {} = st"
  by (simp add: marked_def)

lemma marked_update:
  assumes "a < length (heap st)"
  shows "update_object a (\<lambda>v. v\<lparr>isVariableLoadingPending := True\<rparr>) (marked st T)
         = marked st (insert a T)"
  using mark_pending_insert [OF assms, of T]
  by (simp add: update_object_def marked_def)

lemma find_variable_marked:
  assumes "list_all (\<lambda>a. a < length (heap st)) (values_list st)"
  shows "find_variable (marked st T) n = find_variable st n"
proof -
  have "name (mark_pending T (heap st) ! a) = name (heap st ! a)"
    if "a \<in> set (values_list st)" for a
  proof -
    from that assms have "a < length (heap st)" by (simp add: list_all_iff)
    then show ?thesis by (simp add: mark_pending_nth)
  qed
  then show ?thesis
    unfolding find_variable_def marked_fields
    by (intro find_cong) auto
qed

lemma find_variable_Some:
  assumes "distinct (map (\<lambda>a. name (heap st ! a)) (values_list st))"
  shows "find_variable st n = Some a \<longleftrightarrow> a \<in> set (values_list st) \<and> name (heap st ! a) = n"
proof
  assume "find_variable st n = Some a"
  then show "a \<in> set (values_list st) \<and> name (heap st ! a) = n"
    unfolding find_variable_def by (auto simp: find_Some_iff)
next
  assume h: "a \<in> set (values_list st) \<and> name (heap st ! a) = n"
  then obtain b where b: "find_variable st n = Some b"
    unfolding find_variable_def by (cases "List.find (\<lambda>a. name (heap st ! a) = n) (values_list st)")
      (auto simp: find_None_iff)
  then have "b \<in> set (values_list st)" "name (heap st ! b) = n"
    unfolding find_variable_def by (auto simp: find_Some_iff)
  with h assms have "b = a"
    by (metis (mono_tags, lifting) distinct_map inj_onD)
  with b show "find_variable st n = Some a" by simp
qed

lemma descendants_unfold:
  "descendants g x =
     (\<Union>c \<in> {c. (x, c) \<in> child_rel g}. insert c (descendants g c))"
proof -
  have "(x, y) \<in> (child_rel g)\<^sup>+ \<longleftrightarrow>
        (\<exists>c. (x, c) \<in> child_rel g \<and> (c = y \<or> (c, y) \<in> (child_rel g)\<^sup>+))" for y
  proof
    assume "(x, y) \<in> (child_rel g)\<^sup>+"
    then obtain c where "(x, c) \<in> child_rel g" "(c, y) \<in> (child_rel g)\<^sup>*"
      by (auto dest: tranclD)
    then show "\<exists>c. (x, c) \<in> child_rel g \<and> (c = y \<or> (c, y) \<in> (child_rel g)\<^sup>+)"
      by (auto simp: rtrancl_eq_or_trancl)
  next
    assume "\<exists>c. (x, c) \<in> child_rel g \<and> (c = y \<or> (c, y) \<in> (child_rel g)\<^sup>+)"
    then show "(x, y) \<in> (child_rel g)\<^sup>+" by auto
  qed
  then show ?thesis by (auto simp: descendants_def)
qed

lemma child_rel_finite: "finite (child_rel g)"
proof -
  have "child_rel g \<subseteq> fst ` set g \<times> (\<Union>e \<in> set g. set (childVariables (snd e)))"
    by (auto simp: child_rel_def dest!: map_of_SomeD intro: rev_image_eqI rev_bexI)
  then show ?thesis by (rule finite_subset) auto
qed


lemma mark_children_reaches:
  assumes valid: "list_all (\<lambda>a. a < length (heap st)) (values_list st)"
    and each: "\<forall>c \<in> set cs. find_variable st c \<noteq> None \<and>
        (\<exists>d0. \<forall>d \<ge> d0. \<forall>T. setLoadingStateToAllChildNode d c (marked st T)
             = Returned (marked st (T \<union> descendant_objects st c)))"
  shows "\<exists>d0. \<forall>d \<ge> d0. \<forall>T. mark_children d cs (marked st T)
     = Returned (marked st
         (T \<union> (\<Union>c \<in> set cs. insert (the (find_variable st c)) (descendant_objects st c))))"
  using each
proof (induction cs)
  case Nil
  show ?case by simp
next
  case (Cons c cs)
  from Cons.prems obtain a where a: "find_variable st c = Some a" by auto
  from Cons.prems have "\<exists>d0. \<forall>d \<ge> d0. \<forall>T. setLoadingStateToAllChildNode d c (marked st T)
             = Returned (marked st (T \<union> descendant_objects st c))"
    by simp
  then obtain dc where
    dc: "\<And>d T. d \<ge> dc \<Longrightarrow> setLoadingStateToAllChildNode d c (marked st T)
             = Returned (marked st (T \<union> descendant_objects st c))"
    by blast
  from Cons.prems have "\<exists>d0. \<forall>d \<ge> d0. \<forall>T. mark_children d cs (marked st T)
     = Returned (marked st
         (T \<union> (\<Union>c \<in> set cs. insert (the (find_variable st c)) (descendant_objects st c))))"
    by (intro Cons.IH) simp
  then obtain ds where
    ds: "\<And>d T. d \<ge> ds \<Longrightarrow> mark_children d cs (marked st T)
     = Returned (marked st
         (T \<union> (\<Union>c \<in> set cs. insert (the (find_variable st c)) (descendant_objects st c))))"
    by blast
  from a have "a \<in> set (values_list st)"
    unfolding find_variable_def by (auto simp: find_Some_iff)
  with valid have al: "a < length (heap st)" by (simp add: list_all_iff)
  have "mark_children d (c # cs) (marked st T)
     = Returned (marked st
         (T \<union> (\<Union>c \<in> set (c # cs). insert (the (find_variable st c)) (descendant_objects st c))))"
    if d: "d \<ge> max dc ds" for d T
  proof -
    have f: "find_variable (marked st T) c = Some a"
      using a by (simp add: find_variable_marked [OF valid])
    have u: "update_object a (\<lambda>v. v\<lparr>isVariableLoadingPending := True\<rparr>) (marked st T)
             = marked st (insert a T)"
      using al by (rule marked_update)
    have s1: "setLoadingStateToAllChildNode d c (marked st (insert a T))
              = Returned (marked st (insert a T \<union> descendant_objects st c))"
      using d by (intro dc) simp
    have s2: "mark_children d cs (marked st (insert a T \<union> descendant_objects st c))
              = Returned (marked st
                 ((insert a T \<union> descendant_objects st c) \<union>
                  (\<Union>c \<in> set cs. insert (the (find_variable st c)) (descendant_objects st c))))"
      using d by (intro ds) simp
    have e: "(insert a T \<union> descendant_objects st c) \<union>
                  (\<Union>c \<in> set cs. insert (the (find_variable st c)) (descendant_objects st c))
           = T \<union> (\<Union>c \<in> set (c # cs).
                      insert (the (find_variable st c)) (descendant_objects st c))"
      using a by auto
    show ?thesis
      using f u s1 s2 e by simp
  qed
  then show ?case by blast
qed

lemma marking_reaches:
  assumes acyc: "acyclic (child_rel (variablesDependencyGraph st))"
    and closed: "graph_closed st"
    and dist: "distinct (map (\<lambda>a. name (heap st ! a)) (values_list st))"
  shows "map_of (variablesDependencyGraph st) x \<noteq> None \<longrightarrow>
     (\<exists>d0. \<forall>d \<ge> d0. \<forall>T. setLoadingStateToAllChildNode d x (marked st T)
        = Returned (marked st (T \<union> descendant_objects st x)))"
proof -
  let ?g = "variablesDependencyGraph st"
  have wf: "wf ((child_rel ?g)\<inverse>)"
    using child_rel_finite acyc by (rule finite_acyclic_wf_converse)
  from closed have valid: "list_all (\<lambda>a. a < length (heap st)) (values_list st)"
    by (simp add: graph_closed_def)
  show ?thesis
  proof (induction x rule: wf_induct_rule [OF wf])
    case (1 x)
    show ?case
    proof
      assume "map_of ?g x \<noteq> None"
      then obtain node where node: "map_of ?g x = Some node" by auto
      let ?cs = "childVariables node"
      have kids: "{c. (x, c) \<in> child_rel ?g} = set ?cs"
        using node by (auto simp: child_rel_def)
      from node have "(x, node) \<in> set ?g" by (rule map_of_SomeD)
      with closed have cl: "\<forall>c \<in> set ?cs. map_of ?g c \<noteq> None \<and> find_variable st c \<noteq> None"
        by (auto simp: graph_closed_def list_all_iff)
      have each: "\<forall>c \<in> set ?cs. find_variable st c \<noteq> None \<and>
        (\<exists>d0. \<forall>d \<ge> d0. \<forall>T. setLoadingStateToAllChildNode d c (marked st T)
             = Returned (marked st (T \<union> descendant_objects st c)))"
      proof
        fix c assume c: "c \<in> set ?cs"
        with kids have "(c, x) \<in> (child_rel ?g)\<inverse>" by auto
        from "1.IH" [OF this] cl c
        show "find_variable st c \<noteq> None \<and>
          (\<exists>d0. \<forall>d \<ge> d0. \<forall>T. setLoadingStateToAllChildNode d c (marked st T)
             = Returned (marked st (T \<union> descendant_objects st c)))"
          by blast
      qed
      from mark_children_reaches [OF valid each] obtain ds where
        ds: "\<And>d T. d \<ge> ds \<Longrightarrow> mark_children d ?cs (marked st T)
          = Returned (marked st
             (T \<union> (\<Union>c \<in> set ?cs. insert (the (find_variable st c)) (descendant_objects st c))))"
        by blast
      have objs: "(\<Union>c \<in> set ?cs. insert (the (find_variable st c)) (descendant_objects st c))
                  = descendant_objects st x"
      proof -
        have one: "insert (the (find_variable st c)) (descendant_objects st c)
            = {a \<in> set (values_list st). name (heap st ! a) \<in> insert c (descendants ?g c)}"
          if "c \<in> set ?cs" for c
        proof -
          from cl that obtain a where a: "find_variable st c = Some a" by auto
          have "b \<in> set (values_list st) \<and> name (heap st ! b) = c \<longleftrightarrow> b = a" for b
            using find_variable_Some [OF dist, of c b] a by auto
          then have "{b \<in> set (values_list st). name (heap st ! b) = c} = {a}"
            by auto
          with a show ?thesis by (auto simp: descendant_objects_def)
        qed
        have "descendant_objects st x
              = (\<Union>c \<in> set ?cs. {a \<in> set (values_list st).
                                     name (heap st ! a) \<in> insert c (descendants ?g c)})"
          unfolding descendant_objects_def
          by (subst descendants_unfold) (auto simp: kids)
        with one show ?thesis by simp
      qed
      have "setLoadingStateToAllChildNode d x (marked st T)
              = Returned (marked st (T \<union> descendant_objects st x))"
        if "d \<ge> Suc ds" for d T
      proof -
        from that obtain d' where d': "d = Suc d'" "d' \<ge> ds" by (cases d) auto
        show ?thesis
          using node ds [OF d'(2), of T] by (simp add: d'(1) objs)
      qed
      then show "\<exists>d0. \<forall>d \<ge> d0. \<forall>T. setLoadingStateToAllChildNode d x (marked st T)
        = Returned (marked st (T \<union> descendant_objects st x))"
        by blast
    qed
  qed
qed

text \<open>Recording an old value and marking do not interfere.\<close>

lemma marking_set_old:
  "setLoadingStateToAllChildNode depth cur (set_old n v st) =
     (case setLoadingStateToAllChildNode depth cur st of
        Returned s \<Rightarrow> Returned (set_old n v s) | Threw e s \<Rightarrow> Threw e (set_old n v s))"
  "mark_children depth names (set_old n v st) =
     (case mark_children depth names st of
        Returned s \<Rightarrow> Returned (set_old n v s) | Threw e s \<Rightarrow> Threw e (set_old n v s))"
proof (induction depth cur st and depth names st
    rule: setLoadingStateToAllChildNode_mark_children.induct)
  case (1 cur st)
  show ?case by simp
next
  case (2 depth cur st)
  then show ?case by (simp split: option.splits)
next
  case (3 depth st)
  show ?case by simp
next
  case (4 depth variableName rest st)
  have f: "find_variable (set_old n v st) variableName = find_variable st variableName"
    by (simp add: find_variable_def)
  show ?case
  proof (cases "find_variable st variableName")
    case None
    with f show ?thesis by simp
  next
    case (Some a)
    let ?st1 = "update_object a (\<lambda>v. v\<lparr>isVariableLoadingPending := True\<rparr>) st"
    have u: "update_object a (\<lambda>v. v\<lparr>isVariableLoadingPending := True\<rparr>) (set_old n v st)
             = set_old n v ?st1"
      by (simp add: update_object_def set_old_def)
    note ih1 = "4.IH"(1) [OF Some]
    show ?thesis
    proof (cases "setLoadingStateToAllChildNode depth variableName ?st1")
      case (Threw e s)
      with Some f u ih1 show ?thesis by simp
    next
      case (Returned s)
      note ih2 = "4.IH"(2) [OF Some Returned]
      from Some f u ih1 ih2 Returned show ?thesis by simp
    qed
  qed
qed

text \<open>
  C9. For an acyclic dependency graph in which every child named has a variable and an
  entry of its own, distinct variable names and a call stack deep enough:
  \<open>setLoadingStateToAllChildNode\<close> for \<open>x\<close> returns, and the state it leaves is the one
  it started from with \<open>isVariableLoadingPending\<close> set on every variable whose name is a
  descendant of \<open>x\<close>. Every other object, every other field of a descendant and the
  rest of the state are as they were. \<open>onVariablesValueUpdated\<close> at the variable \<open>x\<close>
  makes its attempts from that state, with the edited value recorded as the old one.
\<close>

theorem C9_descendants_marked_pending:
  assumes "acyclic (child_rel (variablesDependencyGraph st))"
    and "graph_closed st"
    and "distinct (map (\<lambda>a. name (heap st ! a)) (values_list st))"
    and "map_of (variablesDependencyGraph st) x \<noteq> None"
  shows "\<exists>d0. \<forall>depth \<ge> d0.
     setLoadingStateToAllChildNode depth x st
       = Returned (st\<lparr>heap := mark_pending (descendant_objects st x) (heap st)\<rparr>)
     \<and> (\<forall>a < length (heap st).
           mark_pending (descendant_objects st x) (heap st) ! a =
             (if a \<in> set (values_list st)
                 \<and> name (heap st ! a) \<in> descendants (variablesDependencyGraph st) x
              then (heap st ! a)\<lparr>isVariableLoadingPending := True\<rparr> else heap st ! a))
     \<and> (\<forall>idx a0. at_index (values_list st) idx = Some a0 \<and> name (heap st ! a0) = x \<longrightarrow>
           onVariablesValueUpdated depth idx st =
             Returned
               (fold (\<lambda>index. loadSingleVariableDataByIndex (int index))
                  [0 ..< length (values_list st)]
                  ((set_old x (val (heap st ! a0)) st)
                     \<lparr>heap := mark_pending (descendant_objects st x) (heap st)\<rparr>)))"
proof -
  let ?M = "mark_pending (descendant_objects st x) (heap st)"
  from marking_reaches [OF assms(1-3), of x] assms(4) obtain d1 where
    "\<And>d T. d \<ge> d1 \<Longrightarrow> setLoadingStateToAllChildNode d x (marked st T)
        = Returned (marked st (T \<union> descendant_objects st x))"
    by blast
  from this [of _ "{}"]
  have m: "\<And>d. d \<ge> d1 \<Longrightarrow> setLoadingStateToAllChildNode d x st = Returned (st\<lparr>heap := ?M\<rparr>)"
    by (simp add: marked_def)
  have pt: "\<forall>a < length (heap st).
           ?M ! a =
             (if a \<in> set (values_list st)
                 \<and> name (heap st ! a) \<in> descendants (variablesDependencyGraph st) x
              then (heap st ! a)\<lparr>isVariableLoadingPending := True\<rparr> else heap st ! a)"
    by (simp add: mark_pending_nth descendant_objects_def)
  have upd: "onVariablesValueUpdated depth idx st =
             Returned
               (fold (\<lambda>index. loadSingleVariableDataByIndex (int index))
                  [0 ..< length (values_list st)]
                  ((set_old x (val (heap st ! a0)) st)\<lparr>heap := ?M\<rparr>))"
    if le: "depth \<ge> d1" and i: "at_index (values_list st) idx = Some a0"
      and n: "name (heap st ! a0) = x"
    for depth idx a0
  proof -
    from i have nn: "\<not> idx < 0" by (auto dest: at_index_nonneg)
    have "setLoadingStateToAllChildNode depth x (set_old x (val (heap st ! a0)) st)
          = Returned (set_old x (val (heap st ! a0)) (st\<lparr>heap := ?M\<rparr>))"
      by (simp add: marking_set_old m [OF le])
    moreover have "set_old x (val (heap st ! a0)) (st\<lparr>heap := ?M\<rparr>)
          = (set_old x (val (heap st ! a0)) st)\<lparr>heap := ?M\<rparr>"
      by (simp add: set_old_def)
    ultimately show ?thesis
      using i nn n by (simp add: onVariablesValueUpdated_def Let_def)
  qed
  have "\<forall>depth \<ge> d1.
     setLoadingStateToAllChildNode depth x st = Returned (st\<lparr>heap := ?M\<rparr>)
     \<and> (\<forall>a < length (heap st).
           ?M ! a =
             (if a \<in> set (values_list st)
                 \<and> name (heap st ! a) \<in> descendants (variablesDependencyGraph st) x
              then (heap st ! a)\<lparr>isVariableLoadingPending := True\<rparr> else heap st ! a))
     \<and> (\<forall>idx a0. at_index (values_list st) idx = Some a0 \<and> name (heap st ! a0) = x \<longrightarrow>
           onVariablesValueUpdated depth idx st =
             Returned
               (fold (\<lambda>index. loadSingleVariableDataByIndex (int index))
                  [0 ..< length (values_list st)]
                  ((set_old x (val (heap st ! a0)) st)\<lparr>heap := ?M\<rparr>)))"
  proof (intro allI impI)
    fix depth assume le: "d1 \<le> depth"
    have c: "\<forall>idx a0. at_index (values_list st) idx = Some a0 \<and> name (heap st ! a0) = x \<longrightarrow>
           onVariablesValueUpdated depth idx st =
             Returned
               (fold (\<lambda>index. loadSingleVariableDataByIndex (int index))
                  [0 ..< length (values_list st)]
                  ((set_old x (val (heap st ! a0)) st)\<lparr>heap := ?M\<rparr>))"
    proof (intro allI impI)
      fix idx a0
      assume "at_index (values_list st) idx = Some a0 \<and> name (heap st ! a0) = x"
      then show "onVariablesValueUpdated depth idx st =
             Returned
               (fold (\<lambda>index. loadSingleVariableDataByIndex (int index))
                  [0 ..< length (values_list st)]
                  ((set_old x (val (heap st ! a0)) st)\<lparr>heap := ?M\<rparr>))"
        using upd [OF le] by simp
    qed
    show "setLoadingStateToAllChildNode depth x st = Returned (st\<lparr>heap := ?M\<rparr>)
     \<and> (\<forall>a < length (heap st).
           ?M ! a =
             (if a \<in> set (values_list st)
                 \<and> name (heap st ! a) \<in> descendants (variablesDependencyGraph st) x
              then (heap st ! a)\<lparr>isVariableLoadingPending := True\<rparr> else heap st ! a))
     \<and> (\<forall>idx a0. at_index (values_list st) idx = Some a0 \<and> name (heap st ! a0) = x \<longrightarrow>
           onVariablesValueUpdated depth idx st =
             Returned
               (fold (\<lambda>index. loadSingleVariableDataByIndex (int index))
                  [0 ..< length (values_list st)]
                  ((set_old x (val (heap st ! a0)) st)\<lparr>heap := ?M\<rparr>)))"
      by (intro conjI m [OF le] pt c)
  qed
  then show ?thesis by (intro exI [of _ d1])
qed

lemma loaded_state_descendants:
  "descendants (variablesDependencyGraph loaded_state) ''region'' = {''host''}"
proof -
  have "child_rel (variablesDependencyGraph loaded_state) = {(''region'', ''host'')}"
    by (auto simp: child_rel_def loaded_state_def split: if_splits)
  moreover have "{(''region'', ''host'')}\<^sup>+ = {(''region'', ''host'')}"
    by (simp add: trancl_insert)
  ultimately show ?thesis by (simp add: descendants_def)
qed

lemma eventually_conjD1:
  "\<exists>d0::nat. \<forall>d \<ge> d0. A d \<and> B d \<Longrightarrow> \<exists>d0. \<forall>d \<ge> d0. A d"
  by blast

theorem C9_descendants_marked_pending_witness:
  "\<exists>d0. \<forall>depth \<ge> d0.
     setLoadingStateToAllChildNode depth ''region'' loaded_state
       = Returned (loaded_state\<lparr>heap :=
           [heap loaded_state ! 0,
            (heap loaded_state ! 1)\<lparr>isVariableLoadingPending := True\<rparr>,
            heap loaded_state ! 2]\<rparr>)"
proof -
  have "child_rel (variablesDependencyGraph loaded_state) = {(''region'', ''host'')}"
    by (auto simp: child_rel_def loaded_state_def split: if_splits)
  moreover have "{(''region'', ''host'')}\<^sup>+ = {(''region'', ''host'')}"
    by (simp add: trancl_insert)
  ultimately have a1: "acyclic (child_rel (variablesDependencyGraph loaded_state))"
    by (simp add: acyclic_def)
  have a2: "graph_closed loaded_state"
    by (simp add: graph_closed_def loaded_state_def find_variable_def mk_variable_def)
  have a3: "distinct (map (\<lambda>a. name (heap loaded_state ! a)) (values_list loaded_state))"
    by (simp add: loaded_state_def mk_variable_def)
  have a4: "map_of (variablesDependencyGraph loaded_state) ''region'' \<noteq> None"
    by (simp add: loaded_state_def)
  have d: "descendant_objects loaded_state ''region'' = {1}"
    unfolding descendant_objects_def loaded_state_descendants
    by (auto simp: loaded_state_def mk_variable_def)
  have len: "length (heap loaded_state) = 3" by (simp add: loaded_state_def)
  have mp: "mark_pending {1} (heap loaded_state) =
           [heap loaded_state ! 0,
            (heap loaded_state ! 1)\<lparr>isVariableLoadingPending := True\<rparr>,
            heap loaded_state ! 2]"
    by (simp add: mark_pending_def len upt_rec numeral_2_eq_2)
  from C9_descendants_marked_pending [OF a1 a2 a3 a4]
  have "\<exists>d0. \<forall>depth \<ge> d0.
     setLoadingStateToAllChildNode depth ''region'' loaded_state
       = Returned (loaded_state\<lparr>heap :=
           mark_pending (descendant_objects loaded_state ''region'') (heap loaded_state)\<rparr>)"
    by (rule eventually_conjD1)
  then show ?thesis by (simp only: d mp)
qed

section \<open>A failed fetch\<close>

lemma promise_settle_promise:
  "promises (settle_promise p r st) ! q =
     (if q = p \<and> p < length (promises st) \<and> settled (promises st ! p) = Unsettled
      then (promises st ! p)\<lparr>settled := r\<rparr> else promises st ! q)"
  by (auto simp: settle_promise_def)

lemma promise_set_stage:
  "promises (set_stage p s st) ! q =
     (if q = p \<and> p < length (promises st) then (promises st ! p)\<lparr>stage := s\<rparr>
      else promises st ! q)"
  by (simp add: set_stage_def nth_update_cases)

lemma promise_mark_reacted:
  "promises (mark_reacted p st) ! q =
     (if q = p \<and> p < length (promises st) then (promises st ! p)\<lparr>reacted := True\<rparr>
      else promises st ! q)"
  by (simp add: mark_reacted_def nth_update_cases)

lemma map_update_same:
  assumes "f (g (xs ! i)) = f (xs ! i)"
  shows "map f (xs[i := g (xs ! i)]) = map f xs"
proof (rule nth_equalityI)
  show "length (map f (xs[i := g (xs ! i)])) = length (map f xs)" by simp
next
  fix j assume "j < length (map f (xs[i := g (xs ! i)]))"
  then have "j < length xs" by simp
  then show "map f (xs[i := g (xs ! i)]) ! j = map f xs ! j"
    using assms by (cases "j = i") simp_all
qed

lemma variableIndex_prims [simp]:
  "map variableIndex (promises (settle_promise p r st)) = map variableIndex (promises st)"
  "map variableIndex (promises (resolve p b st)) = map variableIndex (promises st)"
  "map variableIndex (promises (reject p st)) = map variableIndex (promises st)"
  "map variableIndex (promises (set_stage p s st)) = map variableIndex (promises st)"
  "map variableIndex (promises (install_reject n p a st)) = map variableIndex (promises st)"
  "map variableIndex (promises (mark_reacted p st)) = map variableIndex (promises st)"
  "map variableIndex (promises (new_promise idx st)) = map variableIndex (promises st) @ [idx]"
  by (simp_all add: settle_promise_def resolve_def reject_def set_stage_def install_reject_def
      mark_reacted_def new_promise_def map_update_same)

lemma variableIndex_reject_stored [simp]:
  "map variableIndex (promises (reject_stored n st)) = map variableIndex (promises st)"
  by (simp add: reject_stored_def split: option.splits)

lemma lsv_variableIndex:
  "map variableIndex (promises (loadSingleVariableDataByIndex idx st))
   = map variableIndex (promises st) @ [idx]"
  by (simp add: loadSingleVariableDataByIndex_def Let_def split: option.splits vtype.splits)

lemma fold_lsv_variableIndex:
  "map variableIndex (promises (fold (\<lambda>i. loadSingleVariableDataByIndex (int i)) is st))
   = map variableIndex (promises st) @ map int is"
  by (induction "is" arbitrary: st) (simp_all add: lsv_variableIndex)

lemma lsv_keeps_loaded:
  assumes "\<not> isVariableLoadingPending (heap st ! a)"
  shows "heap (loadSingleVariableDataByIndex idx st) ! a = heap st ! a"
proof (cases "at_index (values_list st) idx = Some a")
  case True
  with assms show ?thesis by (simp add: lsv_heap_not_pending)
next
  case False
  then show ?thesis by (rule lsv_heap_other)
qed

lemma fold_lsv_keeps_loaded:
  assumes "\<not> isVariableLoadingPending (heap st ! a)"
  shows "heap (fold (\<lambda>i. loadSingleVariableDataByIndex (int i)) is st) ! a = heap st ! a"
  using assms
proof (induction "is" arbitrary: st)
  case Nil
  show ?case by simp
next
  case (Cons i "is")
  have k: "heap (loadSingleVariableDataByIndex (int i) st) ! a = heap st ! a"
    using Cons.prems by (rule lsv_keeps_loaded)
  then have "\<not> isVariableLoadingPending (heap (loadSingleVariableDataByIndex (int i) st) ! a)"
    using Cons.prems by simp
  from Cons.IH [OF this] k show ?case by simp
qed

lemma fold_lsv_frame:
  "values_list (fold (\<lambda>i. loadSingleVariableDataByIndex (int i)) is st) = values_list st"
  "fieldValuesCalls (fold (\<lambda>i. loadSingleVariableDataByIndex (int i)) is st) = fieldValuesCalls st"
  "variablesDependencyGraph (fold (\<lambda>i. loadSingleVariableDataByIndex (int i)) is st)
     = variablesDependencyGraph st"
  "selectedTimeDate (fold (\<lambda>i. loadSingleVariableDataByIndex (int i)) is st) = selectedTimeDate st"
  by (induction "is" arbitrary: st) (simp_all add: lsv_frame)

lemma childVariableIndices_cong:
  assumes "values_list st' = values_list st"
    and "\<And>b. name (heap st' ! b) = name (heap st ! b)"
  shows "childVariableIndices st' node = childVariableIndices st node"
  by (simp add: childVariableIndices_def assms)

text \<open>
  C5, as the claim states it, fails: after the fetch for \<open>region\<close> has failed, the handler
  of \<open>then\<close> runs as after a success and attempts the children at once; \<open>host\<close>, which
  was not loading, begins to load in the same cycle.
\<close>

theorem C5_children_attempted_after_failure:
  "val (heap region_failed ! 0) = Scalar SNull
   \<and> options (heap region_failed ! 0) = []
   \<and> settled (promises region_failed ! 0) = Fulfilled True
   \<and> \<not> isLoading (heap region_failed ! 1)
   \<and> isLoading (heap (run_reaction 0 region_failed) ! 1)"
  by code_simp

text \<open>
  C5, amended. When the fetch of a \<open>query_values\<close> variable fails while its promise is
  unsettled and the variable is still the one at the promise's index: after the
  executor's \<open>catch\<close> block and the handler of \<open>then\<close>, the variable's options are empty,
  it is neither loading nor pending, and its value is \<open>null\<close> if it is not multi-select.
  The handler attempts every child of the variable at once, one new promise per child
  index and in index order. No fetch is issued for the variable, and a further attempt
  for it changes no variable and issues no fetch, until a cycle marks it pending again.
\<close>

theorem C5_failed_fetch_resolves_empty:
  assumes p: "p < length (promises st)"
    and stage: "stage (promises st ! p) = AwaitFieldValues"
    and unsettled: "settled (promises st ! p) = Unsettled"
    and fresh: "reacted (promises st ! p) = False"
    and live: "at_index (values_list st) (variableIndex (promises st ! p))
                 = Some (currentVariable (promises st ! p))"
    and obj: "currentVariable (promises st ! p) < length (heap st)"
    and node: "map_of (variablesDependencyGraph st)
                 (name (heap st ! currentVariable (promises st ! p))) = Some node"
  shows "options (heap (run_reaction p (resume_fieldValues p FetchFailed st))
                    ! currentVariable (promises st ! p)) = []
    \<and> \<not> isLoading (heap (run_reaction p (resume_fieldValues p FetchFailed st))
                    ! currentVariable (promises st ! p))
    \<and> \<not> isVariableLoadingPending (heap (run_reaction p (resume_fieldValues p FetchFailed st))
                    ! currentVariable (promises st ! p))
    \<and> (\<not> multiSelect (heap st ! currentVariable (promises st ! p)) \<longrightarrow>
          val (heap (run_reaction p (resume_fieldValues p FetchFailed st))
                    ! currentVariable (promises st ! p)) = Scalar SNull)
    \<and> map variableIndex
          (drop (length (promises st))
             (promises (run_reaction p (resume_fieldValues p FetchFailed st))))
        = map int (childVariableIndices st node)
    \<and> fieldValuesCalls (run_reaction p (resume_fieldValues p FetchFailed st))
        = fieldValuesCalls st
    \<and> heap (loadSingleVariableDataByIndex (variableIndex (promises st ! p))
               (run_reaction p (resume_fieldValues p FetchFailed st)))
        = heap (run_reaction p (resume_fieldValues p FetchFailed st))
    \<and> fieldValuesCalls (loadSingleVariableDataByIndex (variableIndex (promises st ! p))
               (run_reaction p (resume_fieldValues p FetchFailed st)))
        = fieldValuesCalls st"
proof -
  let ?a = "currentVariable (promises st ! p)"
  let ?idx = "variableIndex (promises st ! p)"
  let ?n = "name (heap st ! ?a)"
  let ?failed = "(heap st ! ?a)\<lparr>val := Scalar SNull, options := []\<rparr>"
  let ?st1 = "resume_fieldValues p FetchFailed st"
  have st1: "?st1 = resolve p True
                 (update_object ?a (\<lambda>v. v\<lparr>val := Scalar SNull, options := []\<rparr>)
                    (set_stage p Done st))"
    using p stage by (simp add: resume_fieldValues_def Let_def executor_catch_def)
  have h1: "heap ?st1 = (heap st)[?a := ?failed]"
    and v1: "values_list ?st1 = values_list st"
    and g1: "variablesDependencyGraph ?st1 = variablesDependencyGraph st"
    and f1: "fieldValuesCalls ?st1 = fieldValuesCalls st"
    and l1: "length (promises ?st1) = length (promises st)"
    and m1: "map variableIndex (promises ?st1) = map variableIndex (promises st)"
    by (simp_all add: st1)
  have p1: "promises ?st1 ! p = (promises st ! p)\<lparr>stage := Done, settled := Fulfilled True\<rparr>"
    using p unsettled
    by (simp add: st1 resolve_def promise_settle_promise promise_set_stage)
  let ?st1' = "mark_reacted p ?st1"
  have r1: "run_reaction p ?st1 = then_handler p ?st1'"
    using p p1 fresh l1 by (simp add: run_reaction_def)
  have pi: "variableIndex (promises ?st1' ! p) = ?idx"
    using p l1 p1 by (simp add: promise_mark_reacted)
  let ?st4 = "mark_loaded ?a ?st1'"
  have h4: "heap ?st4 = (heap st)[?a := ?failed\<lparr>isLoading := False,
                                               isVariableLoadingPending := False\<rparr>]"
    using obj by (simp add: mark_loaded_def Let_def h1)
  have v4: "values_list ?st4 = values_list st"
    and g4: "variablesDependencyGraph ?st4 = variablesDependencyGraph st"
    and f4: "fieldValuesCalls ?st4 = fieldValuesCalls st"
    and m4: "map variableIndex (promises ?st4) = map variableIndex (promises st)"
    by (simp_all add: mark_loaded_def Let_def v1 g1 f1 m1)
  have n4: "name (heap ?st4 ! b) = name (heap st ! b)" for b
    by (simp add: h4 nth_update_cases)
  let ?cis = "childVariableIndices st node"
  have c4: "childVariableIndices ?st4 node = ?cis"
    using v4 n4 by (rule childVariableIndices_cong)
  let ?st2 = "fold (\<lambda>childIndex. loadSingleVariableDataByIndex (int childIndex)) ?cis
                (emitVariablesData ?st4)"
  have nn: "\<not> ?idx < 0" using live by (auto dest: at_index_nonneg)
  have r2: "run_reaction p ?st1 = ?st2"
    using nn live node
    by (simp add: r1 then_handler_def Let_def pi v1 n4 g4 c4 del: heap_update_object)
  have a4: "heap (emitVariablesData ?st4) ! ?a
            = ?failed\<lparr>isLoading := False, isVariableLoadingPending := False\<rparr>"
    using obj by (simp add: h4)
  then have np: "\<not> isVariableLoadingPending (heap (emitVariablesData ?st4) ! ?a)" by simp
  have a2: "heap ?st2 ! ?a = ?failed\<lparr>isLoading := False, isVariableLoadingPending := False\<rparr>"
    using fold_lsv_keeps_loaded [OF np] a4 by simp
  have f2: "fieldValuesCalls ?st2 = fieldValuesCalls st"
    by (simp add: fold_lsv_frame f4)
  have v2: "values_list ?st2 = values_list st"
    by (simp add: fold_lsv_frame v4)
  have m2: "map variableIndex (promises ?st2) = map variableIndex (promises st) @ map int ?cis"
    by (simp add: fold_lsv_variableIndex m4)
  have d2: "map variableIndex (drop (length (promises st)) (promises ?st2)) = map int ?cis"
  proof -
    have "map variableIndex (drop (length (promises st)) (promises ?st2))
          = drop (length (promises st)) (map variableIndex (promises ?st2))"
      by (simp add: drop_map)
    also have "\<dots> = map int ?cis" by (simp add: m2)
    finally show ?thesis .
  qed
  have again: "heap (loadSingleVariableDataByIndex ?idx ?st2) = heap ?st2"
  proof (rule lsv_heap_not_pending)
    show "at_index (values_list ?st2) ?idx = Some ?a" using live v2 by simp
    show "\<not> isVariableLoadingPending (heap ?st2 ! ?a)" using a2 by simp
  qed
  have again_f: "fieldValuesCalls (loadSingleVariableDataByIndex ?idx ?st2) = fieldValuesCalls st"
    by (simp add: lsv_frame f2)
  show ?thesis
    unfolding r2 using a2 d2 f2 again again_f by simp
qed

theorem C5_failed_fetch_resolves_empty_witness:
  "options (heap (run_reaction 0 region_failed) ! 0) = []
   \<and> \<not> isVariableLoadingPending (heap (run_reaction 0 region_failed) ! 0)
   \<and> val (heap (run_reaction 0 region_failed) ! 0) = Scalar SNull
   \<and> map variableIndex (drop 2 (promises (run_reaction 0 region_failed))) = [1]"
proof -
  let ?node = "\<lparr>parentVariables = [], childVariables = [''host'']\<rparr>"
  have h: "0 < length (promises region_in_flight)"
    "stage (promises region_in_flight ! 0) = AwaitFieldValues"
    "settled (promises region_in_flight ! 0) = Unsettled"
    "reacted (promises region_in_flight ! 0) = False"
    "at_index (values_list region_in_flight) (variableIndex (promises region_in_flight ! 0))
       = Some (currentVariable (promises region_in_flight ! 0))"
    "currentVariable (promises region_in_flight ! 0) < length (heap region_in_flight)"
    "map_of (variablesDependencyGraph region_in_flight)
       (name (heap region_in_flight ! currentVariable (promises region_in_flight ! 0)))
       = Some ?node"
    by code_simp+
  have e: "currentVariable (promises region_in_flight ! 0) = 0"
    "length (promises region_in_flight) = 2"
    "childVariableIndices region_in_flight ?node = [1]"
    "\<not> multiSelect (heap region_in_flight ! 0)"
    by code_simp+
  from C5_failed_fetch_resolves_empty [OF h]
  show ?thesis by (simp add: e region_failed_def)
qed

section \<open>Superseded loads, deferred loads and snapshots\<close>

text \<open>
  C1. The code does not keep the claim. \<open>region\<close> has been loaded again for the new time
  range and is resolved with the value \<open>eu-west\<close>, and promise 0, the load for the old
  range, is rejected. When the response to the fetch of promise 0 arrives, the executor
  of promise 0 goes on and assigns the options and the value of the old range. It starts
  no attempt for the children, for its \<open>resolve(true)\<close> comes after the rejection.
\<close>

theorem C1_cancelled_load_overwrites:
  "settled (promises region_reloaded ! 0) = Rejected
   \<and> isLoading (heap region_reloaded ! 0) = False
   \<and> isVariableLoadingPending (heap region_reloaded ! 0) = False
   \<and> val (heap region_reloaded ! 0) = Scalar (SStr ''eu-west'')
   \<and> map ovalue (options (heap region_reloaded ! 0)) = [SStr ''eu-west'']
   \<and> val (heap (resume_fieldValues 0 stale_response region_reloaded) ! 0)
       = Scalar (SStr ''us-east'')
   \<and> map ovalue (options (heap (resume_fieldValues 0 stale_response region_reloaded) ! 0))
       = [SStr ''us-east'', SStr ''us-west'']
   \<and> length (promises (resume_fieldValues 0 stale_response region_reloaded))
       = length (promises region_reloaded)
   \<and> oldVariablesData (resume_fieldValues 0 stale_response region_reloaded)
       = oldVariablesData region_reloaded"
  by code_simp

text \<open>
  C2. The code does not keep the claim. \<open>region\<close> is loading again when the executor
  of \<open>host\<close> (promise 2) receives its query, which contains \<open>$region\<close>. The loop puts
  \<open>host\<close> back to pending and calls \<open>resolve(false)\<close>, and then goes on: the fetch is
  issued with \<open>$region\<close> still in the query, and its response assigns the options and
  the value of \<open>host\<close>, which stays pending. The same happens to a promise that nothing
  has superseded: \<open>env\<close> is loading, the query of \<open>svc\<close> contains \<open>$env_id\<close>, in which
  \<open>includes\<close> finds \<open>$env\<close>; promise 3 is resolved with \<open>false\<close>, and the fetch is issued
  all the same.
\<close>

theorem C2_deferred_load_still_fetches:
  "isLoading (heap host_superseded ! 0)
   \<and> isVariableLoadingPending (heap host_superseded ! 0)
   \<and> stage (promises host_superseded ! 2) = AwaitLabels
   \<and> fieldValuesCalls host_deferred = fieldValuesCalls host_superseded @ [(2, host_query_context)]
   \<and> isLoading (heap host_deferred ! 1) = False
   \<and> isVariableLoadingPending (heap host_deferred ! 1)
   \<and> val (heap host_deferred ! 1) = Scalar SNull
   \<and> options (heap host_deferred ! 1) = []
   \<and> val (heap (resume_fieldValues 2 host_response host_deferred) ! 1) = Scalar (SStr ''h1'')
   \<and> map ovalue (options (heap (resume_fieldValues 2 host_response host_deferred) ! 1))
       = [SStr ''h1'']
   \<and> isVariableLoadingPending (heap (resume_fieldValues 2 host_response host_deferred) ! 1)
   \<and> settled (promises svc_loading ! 3) = Unsettled
   \<and> isLoading (heap svc_loading ! 0)
   \<and> fieldValuesCalls svc_loading = []
   \<and> settled (promises svc_deferred ! 3) = Fulfilled False
   \<and> isLoading (heap svc_deferred ! 2) = False
   \<and> isVariableLoadingPending (heap svc_deferred ! 2)
   \<and> map fst (fieldValuesCalls svc_deferred) = [3]
   \<and> val (heap svc_deferred ! 2) = Scalar SNull
   \<and> val (heap (resume_fieldValues 3 svc_response svc_deferred) ! 2) = Scalar (SStr ''api'')
   \<and> map ovalue (options (heap (resume_fieldValues 3 svc_response svc_deferred) ! 2))
       = [SStr ''api'', SStr ''web'']
   \<and> isVariableLoadingPending (heap (resume_fieldValues 3 svc_response svc_deferred) ! 2)"
  by code_simp

lemma snapshot_mark_loaded:
  "fst (snapshot (mark_loaded a st))
   = list_ex (\<lambda>v. isLoading v \<or> isVariableLoadingPending v) (snd (snapshot (mark_loaded a st)))"
  by (simp add: snapshot_def mark_loaded_def Let_def list_ex_iff)

text \<open>
  C7. The code does not keep the claim. The snapshot emitted after the component is
  mounted says that no variable is loading, while \<open>region\<close> is loading and \<open>host\<close> is
  pending: \<open>isVariablesLoading\<close> is computed in the handler of \<open>then\<close> only, where it
  is the disjunction the claim states.
\<close>

theorem C7_snapshot_after_mount:
  "map fst (emitted mounted) = [False]
   \<and> map (\<lambda>s. map (\<lambda>v. (name v, isLoading v, isVariableLoadingPending v)) (snd s))
         (emitted mounted)
       = [[(''region'', True, True), (''host'', False, True)]]
   \<and> (\<forall>a st. fst (snapshot (mark_loaded a st))
         = list_ex (\<lambda>v. isLoading v \<or> isVariableLoadingPending v)
             (snd (snapshot (mark_loaded a st))))"
proof -
  have "map fst (emitted mounted) = [False]
   \<and> map (\<lambda>s. map (\<lambda>v. (name v, isLoading v, isVariableLoadingPending v)) (snd s))
         (emitted mounted)
       = [[(''region'', True, True), (''host'', False, True)]]"
    by code_simp
  then show ?thesis by (simp add: snapshot_mark_loaded)
qed

end
